theory Spec2Isabelle
  imports Main
begin

section \<open>The Python library, as far as the address book uses it\<close>

text \<open>
  A Python \<open>str\<close> is a sequence of code points. A \<open>string\<close> is read here as the
  sequence of its code points, so the embedding covers the strings whose code points lie
  below 256 (ASCII and Latin-1); \<open>length\<close> counts code points, as \<open>len\<close> does.
  Python's unbounded integers are \<open>int\<close>. An exception is a value of \<open>error\<close>; the message
  of a library exception is written as CPython 3.11 prints it, with the offending text
  unquoted.
\<close>

datatype error = ValueError string | OverflowError string

subsection \<open>str.isdigit, int and decimal formatting\<close>

text \<open>
  \<open>str.isdigit\<close>: every character is a digit (Unicode Numeric_Type Digit or Decimal) and
  there is at least one character. Below 256 the digits are \<open>0\<close> to \<open>9\<close> and the
  superscripts U+00B2, U+00B3 and U+00B9.
\<close>

definition isdigit_char :: "char \<Rightarrow> bool" where
  "isdigit_char c =
     (let n = (of_char c :: nat) in (48 \<le> n \<and> n \<le> 57) \<or> n = 178 \<or> n = 179 \<or> n = 185)"

definition isdigit :: "string \<Rightarrow> bool" where
  "isdigit s = (s \<noteq> [] \<and> list_all isdigit_char s)"

text \<open>The ASCII decimal digits, the characters the pattern \<open>\d\<close> matches below 256.\<close>

definition ascii_digit :: "char \<Rightarrow> bool" where
  "ascii_digit c = (48 \<le> (of_char c :: nat) \<and> (of_char c :: nat) \<le> 57)"

definition digit_value :: "char \<Rightarrow> int" where
  "digit_value c = int (of_char c) - 48"

text \<open>
  \<open>int(s)\<close> on the text of a group of the date pattern: blanks around the number are
  dropped and the decimal digits are read from the left.
\<close>

definition py_int :: "string \<Rightarrow> int" where
  "py_int s = foldl (\<lambda>acc c. 10 * acc + digit_value c) 0 (dropWhile (\<lambda>c. c = CHR '' '') s)"

text \<open>The character of a digit, for a value below ten.\<close>

definition digit_char :: "nat \<Rightarrow> char" where
  "digit_char n = ''0123456789'' ! n"

function str_nat :: "nat \<Rightarrow> string" where
  "str_nat n = (if n < 10 then [digit_char n] else str_nat (n div 10) @ [digit_char (n mod 10)])"
  by pat_completeness auto
termination
  by (relation "measure id") auto

declare str_nat.simps [simp del]

definition str_int :: "int \<Rightarrow> string" where
  "str_int i = (if i < 0 then CHR ''-'' # str_nat (nat (- i)) else str_nat (nat i))"

text \<open>\<open>'%0wd' % i\<close> for \<open>i \<ge> 0\<close>: the decimal text, filled with zeros on the left to width \<open>w\<close>.\<close>

definition zfill :: "nat \<Rightarrow> string \<Rightarrow> string" where
  "zfill w s = replicate (w - length s) CHR ''0'' @ s"

subsection \<open>datetime.date and datetime.datetime\<close>

record date =
  year :: int
  month :: int
  day :: int

record datetime = date +
  hour :: int
  minute :: int
  second :: int
  microsecond :: int

definition MAXYEAR :: int where
  "MAXYEAR = 9999"

definition MAXORDINAL :: int where
  "MAXORDINAL = 3652059"

definition DAYS_IN_MONTH :: "int list" where
  "DAYS_IN_MONTH = [-1, 31, 28, 31, 30, 31, 30, 31, 31, 30, 31, 30, 31]"

definition DAYS_BEFORE_MONTH :: "int list" where
  "DAYS_BEFORE_MONTH = [-1, 0, 31, 59, 90, 120, 151, 181, 212, 243, 273, 304, 334]"

definition is_leap :: "int \<Rightarrow> bool" where
  "is_leap y = (y mod 4 = 0 \<and> (y mod 100 \<noteq> 0 \<or> y mod 400 = 0))"

definition days_before_year :: "int \<Rightarrow> int" where
  "days_before_year y = (let z = y - 1 in z * 365 + z div 4 - z div 100 + z div 400)"

definition days_in_month :: "int \<Rightarrow> int \<Rightarrow> int" where
  "days_in_month y m = (if m = 2 \<and> is_leap y then 29 else DAYS_IN_MONTH ! nat m)"

definition days_before_month :: "int \<Rightarrow> int \<Rightarrow> int" where
  "days_before_month y m = DAYS_BEFORE_MONTH ! nat m + (if m > 2 \<and> is_leap y then 1 else 0)"

definition ymd2ord :: "int \<Rightarrow> int \<Rightarrow> int \<Rightarrow> int" where
  "ymd2ord y m d = days_before_year y + days_before_month y m + d"

definition DI400Y :: int where
  "DI400Y = 146097"

definition DI100Y :: int where
  "DI100Y = 36524"

definition DI4Y :: int where
  "DI4Y = 1461"

text \<open>
  \<open>_ord2ymd\<close>: the ordinal, counted from 0, is split into 400-year, 100-year and 4-year
  cycles and single years; the month is estimated as \<open>(n + 50) >> 5\<close> and corrected when
  the estimate is one too large.
\<close>

definition ord2ymd :: "int \<Rightarrow> date" where
  "ord2ymd n0 =
     (let n = n0 - 1;
          n400 = n div DI400Y; n = n mod DI400Y;
          y = n400 * 400 + 1;
          n100 = n div DI100Y; n = n mod DI100Y;
          n4 = n div DI4Y; n = n mod DI4Y;
          n1 = n div 365; n = n mod 365;
          y = y + n100 * 100 + n4 * 4 + n1
      in if n1 = 4 \<or> n100 = 4 then \<lparr>year = y - 1, month = 12, day = 31\<rparr>
         else
           let leapyear = (n1 = 3 \<and> (n4 \<noteq> 24 \<or> n100 = 3));
               m = (n + 50) div 32;
               preceding = DAYS_BEFORE_MONTH ! nat m + (if m > 2 \<and> leapyear then 1 else 0)
           in if preceding > n
              then let m = m - 1;
                       preceding = preceding
                         - (DAYS_IN_MONTH ! nat m + (if m = 2 \<and> leapyear then 1 else 0))
                   in \<lparr>year = y, month = m, day = n - preceding + 1\<rparr>
              else \<lparr>year = y, month = m, day = n - preceding + 1\<rparr>)"

text \<open>
  \<open>date(y, m, d)\<close>: the constructor checks its fields and raises \<open>ValueError\<close> on a
  year outside 1..9999, a month outside 1..12 or a day the month does not have.
\<close>

definition date_new :: "int \<Rightarrow> int \<Rightarrow> int \<Rightarrow> error + date" where
  "date_new y m d =
     (if \<not> (1 \<le> y \<and> y \<le> MAXYEAR)
        then Inl (ValueError (''year '' @ str_int y @ '' is out of range''))
      else if \<not> (1 \<le> m \<and> m \<le> 12)
        then Inl (ValueError ''month must be in 1..12'')
      else if \<not> (1 \<le> d \<and> d \<le> days_in_month y m)
        then Inl (ValueError ''day is out of range for month'')
      else Inr \<lparr>year = y, month = m, day = d\<rparr>)"

text \<open>The dates the constructor accepts.\<close>

definition valid_date :: "'a date_scheme \<Rightarrow> bool" where
  "valid_date d =
     (1 \<le> year d \<and> year d \<le> MAXYEAR \<and> 1 \<le> month d \<and> month d \<le> 12 \<and>
      1 \<le> day d \<and> day d \<le> days_in_month (year d) (month d))"

definition toordinal :: "date \<Rightarrow> int" where
  "toordinal d = ymd2ord (year d) (month d) (day d)"

definition fromordinal :: "int \<Rightarrow> date" where
  "fromordinal n = ord2ymd n"

text \<open>\<open>date.weekday()\<close>: Monday is 0 and Sunday is 6.\<close>

definition weekday :: "date \<Rightarrow> int" where
  "weekday d = (toordinal d + 6) mod 7"

text \<open>\<open>d + timedelta(days=k)\<close>: \<open>OverflowError\<close> when the result leaves 0001-01-01..9999-12-31.\<close>

definition date_add_days :: "date \<Rightarrow> int \<Rightarrow> error + date" where
  "date_add_days d k =
     (let n = toordinal d + k
      in if 0 < n \<and> n \<le> MAXORDINAL then Inr (fromordinal n)
         else Inl (OverflowError ''date value out of range''))"

text \<open>\<open>a <= b\<close> on dates compares the tuples (year, month, day).\<close>

definition date_le :: "date \<Rightarrow> date \<Rightarrow> bool" where
  "date_le a b =
     (year a < year b \<or>
      (year a = year b \<and> (month a < month b \<or> (month a = month b \<and> day a \<le> day b))))"

text \<open>\<open>d.replace(year=y)\<close> builds \<open>date(y, d.month, d.day)\<close>, so it checks the new date.\<close>

definition date_replace_year :: "date \<Rightarrow> int \<Rightarrow> error + date" where
  "date_replace_year d y = date_new y (month d) (day d)"

text \<open>\<open>datetime.date()\<close>: the date part of a datetime.\<close>

definition datetime_date :: "datetime \<Rightarrow> date" where
  "datetime_date dt = \<lparr>year = year dt, month = month dt, day = day dt\<rparr>"

subsection \<open>The platform: the clock and the C library's strftime\<close>

text \<open>
  \<open>datetime.today()\<close> reads the system clock, and \<open>strftime\<close> hands \<open>%Y\<close> to the C
  library. Both belong to the platform the program runs on: \<open>clock\<close> is what
  \<open>datetime.today()\<close> returns at the moment of the call; \<open>pads_year\<close> tells whether
  \<open>%Y\<close> is filled with zeros to four digits (as the documentation of \<open>datetime\<close> shows
  it) or printed as a plain decimal number (as glibc does under CPython 3.11, where year
  999 prints as \<open>999\<close>).
\<close>

record platform =
  clock :: datetime
  pads_year :: bool

text \<open>\<open>strftime("%d.%m.%Y")\<close> of a date or datetime.\<close>

definition strftime_dmY :: "platform \<Rightarrow> 'a date_scheme \<Rightarrow> string" where
  "strftime_dmY pf d =
     zfill 2 (str_int (day d)) @ ''.'' @ zfill 2 (str_int (month d)) @ ''.'' @
     (if pads_year pf then zfill 4 (str_int (year d)) else str_int (year d))"

subsection \<open>The text DD.MM.YYYY of a date\<close>

text \<open>
  The form the specification names: the day and the month in two digits each and the year
  in four, with dots between them. It is written from the specification's words, to be
  compared with what \<open>strptime\<close> accepts and \<open>strftime\<close> prints.
\<close>

definition two_digits :: "int \<Rightarrow> string" where
  "two_digits n = [digit_char (nat n div 10), digit_char (nat n mod 10)]"

definition four_digits :: "int \<Rightarrow> string" where
  "four_digits n =
     [digit_char (nat n div 1000), digit_char (nat n div 100 mod 10),
      digit_char (nat n div 10 mod 10), digit_char (nat n mod 10)]"

definition DD_MM_YYYY :: "'a date_scheme \<Rightarrow> string" where
  "DD_MM_YYYY d = two_digits (day d) @ ''.'' @ two_digits (month d) @ ''.'' @ four_digits (year d)"

subsection \<open>datetime.strptime with the format "%d.%m.%Y"\<close>

text \<open>
  \<open>_strptime\<close> turns the format into the regular expression
  \<^verbatim>\<open>(?P<d>3[0-1]|[1-2]\d|0[1-9]|[1-9]| [1-9])\.(?P<m>1[0-2]|0[1-9]|[1-9])\.(?P<Y>\d\d\d\d)\<close>
  and matches it at the start of the text. \<open>rmatch\<close> is a backtracking matcher: it
  returns the rest of the text after every way the pattern matches a prefix, the way the
  \<open>re\<close> module would try first coming first.
\<close>

datatype regex =
    Lit char
  | Range char char
  | Digit
  | Seq regex regex
  | Alt regex regex

fun rmatch :: "regex \<Rightarrow> string \<Rightarrow> string list" where
  "rmatch (Lit c) s = (case s of [] \<Rightarrow> [] | x # r \<Rightarrow> if x = c then [r] else [])"
| "rmatch (Range a b) s =
     (case s of [] \<Rightarrow> []
      | x # r \<Rightarrow> if (of_char a :: nat) \<le> of_char x \<and> (of_char x :: nat) \<le> of_char b then [r] else [])"
| "rmatch Digit s = (case s of [] \<Rightarrow> [] | x # r \<Rightarrow> if ascii_digit x then [r] else [])"
| "rmatch (Seq p q) s = concat (map (rmatch q) (rmatch p s))"
| "rmatch (Alt p q) s = rmatch p s @ rmatch q s"

definition RE_d :: regex where
  "RE_d = Alt (Seq (Lit CHR ''3'') (Range CHR ''0'' CHR ''1''))
         (Alt (Seq (Range CHR ''1'' CHR ''2'') Digit)
         (Alt (Seq (Lit CHR ''0'') (Range CHR ''1'' CHR ''9''))
         (Alt (Range CHR ''1'' CHR ''9'')
              (Seq (Lit CHR '' '') (Range CHR ''1'' CHR ''9'')))))"

definition RE_m :: regex where
  "RE_m = Alt (Seq (Lit CHR ''1'') (Range CHR ''0'' CHR ''2''))
         (Alt (Seq (Lit CHR ''0'') (Range CHR ''1'' CHR ''9''))
              (Range CHR ''1'' CHR ''9''))"

definition RE_Y :: regex where
  "RE_Y = Seq Digit (Seq Digit (Seq Digit Digit))"

text \<open>A named group: the text the pattern matched, with the rest after it.\<close>

definition named_group :: "regex \<Rightarrow> string \<Rightarrow> (string \<times> string) list" where
  "named_group p s = map (\<lambda>r. (take (length s - length r) s, r)) (rmatch p s)"

definition match_dmY :: "string \<Rightarrow> (string \<times> string \<times> string \<times> string) list" where
  "match_dmY s =
     concat (map (\<lambda>(d, r0).
       concat (map (\<lambda>r1.
         concat (map (\<lambda>(m, r2).
           concat (map (\<lambda>r3.
             map (\<lambda>(y, r4). (d, m, y, r4)) (named_group RE_Y r3))
           (rmatch (Lit CHR ''.'') r2)))
         (named_group RE_m r1)))
       (rmatch (Lit CHR ''.'') r0)))
     (named_group RE_d s))"

text \<open>
  \<open>datetime.strptime(s, "%d.%m.%Y")\<close>: the first match of the pattern; text left over
  after it is an error; the three numbers go through the checks of \<open>date\<close>. The result is
  the datetime at midnight.
\<close>

definition strptime_dmY :: "string \<Rightarrow> error + datetime" where
  "strptime_dmY s =
     (case match_dmY s of
        [] \<Rightarrow> Inl (ValueError (''time data '' @ s @ '' does not match format %d.%m.%Y''))
      | (d, m, y, rest) # _ \<Rightarrow>
          if rest \<noteq> [] then Inl (ValueError (''unconverted data remains: '' @ rest))
          else (case date_new (py_int y) (py_int m) (py_int d) of
                  Inl e \<Rightarrow> Inl e
                | Inr dt \<Rightarrow> Inr \<lparr>year = year dt, month = month dt, day = day dt,
                                hour = 0, minute = 0, second = 0, microsecond = 0\<rparr>))"

section \<open>address_book.py\<close>

subsection \<open>Field, Name, Phone, Birthday\<close>

text \<open>
  Each field class holds one attribute, \<open>value\<close>: a \<open>str\<close> for \<open>Name\<close> and \<open>Phone\<close>, a
  \<open>datetime\<close> for \<open>Birthday\<close>. \<open>Name\<close> has no check of its own.
\<close>

record Name =
  name_value :: string

record Phone =
  phone_value :: string

record Birthday =
  birthday_value :: datetime

definition Name_init :: "string \<Rightarrow> Name" where
  "Name_init v = \<lparr>name_value = v\<rparr>"

definition Phone_init :: "string \<Rightarrow> error + Phone" where
  "Phone_init v =
     (if \<not> isdigit v \<or> length v \<noteq> 10
        then Inl (ValueError ''Phone number must be exactly 10 digits.'')
      else Inr \<lparr>phone_value = v\<rparr>)"

definition Birthday_init :: "string \<Rightarrow> error + Birthday" where
  "Birthday_init v =
     (case strptime_dmY v of
        Inr birthday \<Rightarrow> Inr \<lparr>birthday_value = birthday\<rparr>
      | Inl (ValueError exc) \<Rightarrow> Inl (ValueError ''Invalid date format. Use DD.MM.YYYY'')
      | Inl e \<Rightarrow> Inl e)"

subsection \<open>Record\<close>

record Record =
  name :: Name
  phones :: "Phone list"
  birthday :: "Birthday option"

definition Record_init :: "string \<Rightarrow> Record" where
  "Record_init n = \<lparr>name = Name_init n, phones = [], birthday = None\<rparr>"

text \<open>
  A method that changes the record returns what the call returns or raises, paired with
  the record as the call leaves it.
\<close>

definition add_phone :: "string \<Rightarrow> Record \<Rightarrow> (error + unit) \<times> Record" where
  "add_phone phone self =
     (case Phone_init phone of
        Inl e \<Rightarrow> (Inl e, self)
      | Inr p \<Rightarrow> (Inr (), self\<lparr>phones := phones self @ [p]\<rparr>))"

definition remove_phone :: "string \<Rightarrow> Record \<Rightarrow> Record" where
  "remove_phone phone self = self\<lparr>phones := filter (\<lambda>p. phone_value p \<noteq> phone) (phones self)\<rparr>"

text \<open>The loop of \<open>edit_phone\<close> over the phone objects, each changed in place.\<close>

fun edit_phones :: "string \<Rightarrow> string \<Rightarrow> Phone list \<Rightarrow> Phone list" where
  "edit_phones old_phone new_phone [] = []"
| "edit_phones old_phone new_phone (p # ps) =
     (if phone_value p = old_phone then p\<lparr>phone_value := new_phone\<rparr> else p)
       # edit_phones old_phone new_phone ps"

definition edit_phone :: "string \<Rightarrow> string \<Rightarrow> Record \<Rightarrow> Record" where
  "edit_phone old_phone new_phone self =
     self\<lparr>phones := edit_phones old_phone new_phone (phones self)\<rparr>"

fun find_phones :: "string \<Rightarrow> Phone list \<Rightarrow> Phone option" where
  "find_phones phone [] = None"
| "find_phones phone (p # ps) = (if phone_value p = phone then Some p else find_phones phone ps)"

definition find_phone :: "string \<Rightarrow> Record \<Rightarrow> Phone option" where
  "find_phone phone self = find_phones phone (phones self)"

definition add_birthday :: "string \<Rightarrow> Record \<Rightarrow> (error + unit) \<times> Record" where
  "add_birthday b self =
     (case Birthday_init b of
        Inl e \<Rightarrow> (Inl e, self)
      | Inr bd \<Rightarrow> (Inr (), self\<lparr>birthday := Some bd\<rparr>))"

definition get_birthday :: "platform \<Rightarrow> Record \<Rightarrow> string option" where
  "get_birthday pf self =
     (case birthday self of
        Some b \<Rightarrow> Some (strftime_dmY pf (birthday_value b))
      | None \<Rightarrow> None)"

subsection \<open>AddressBook\<close>

text \<open>
  \<open>UserDict\<close> keeps its entries in the dict \<open>data\<close>. A dict keeps its keys in the order of
  their first insertion: storing under a key it has replaces the value where it stands,
  storing under a new key appends.
\<close>

fun dict_setitem :: "('k \<times> 'v) list \<Rightarrow> 'k \<Rightarrow> 'v \<Rightarrow> ('k \<times> 'v) list" where
  "dict_setitem [] k v = [(k, v)]"
| "dict_setitem ((k', v') # kvs) k v =
     (if k' = k then (k', v) # kvs else (k', v') # dict_setitem kvs k v)"

definition dict_get :: "('k \<times> 'v) list \<Rightarrow> 'k \<Rightarrow> 'v option" where
  "dict_get kvs k = map_of kvs k"

definition dict_contains :: "('k \<times> 'v) list \<Rightarrow> 'k \<Rightarrow> bool" where
  "dict_contains kvs k = (map_of kvs k \<noteq> None)"

definition dict_delitem :: "('k \<times> 'v) list \<Rightarrow> 'k \<Rightarrow> ('k \<times> 'v) list" where
  "dict_delitem kvs k = filter (\<lambda>kv. fst kv \<noteq> k) kvs"

definition dict_values :: "('k \<times> 'v) list \<Rightarrow> 'v list" where
  "dict_values kvs = map snd kvs"

record AddressBook =
  data :: "(string \<times> Record) list"

definition AddressBook_init :: AddressBook where
  "AddressBook_init = \<lparr>data = []\<rparr>"

definition add_record :: "Record \<Rightarrow> AddressBook \<Rightarrow> AddressBook" where
  "add_record rec self = self\<lparr>data := dict_setitem (data self) (name_value (name rec)) rec\<rparr>"

definition find_record :: "string \<Rightarrow> AddressBook \<Rightarrow> Record option" where
  "find_record n self = dict_get (data self) n"

definition delete :: "string \<Rightarrow> AddressBook \<Rightarrow> AddressBook" where
  "delete n self =
     (if dict_contains (data self) n then self\<lparr>data := dict_delitem (data self) n\<rparr> else self)"

text \<open>An element of the list \<open>get_upcoming_birthdays\<close> returns: a dict with two keys.\<close>

record congratulation =
  congratulation_name :: string
  congratulation_date :: string

text \<open>
  The body of the loop over the records, for one record: \<open>Inr None\<close> when nothing is
  appended, \<open>Inr (Some c)\<close> when \<open>c\<close> is appended, \<open>Inl\<close> when the body raises.
\<close>

definition upcoming_body ::
  "platform \<Rightarrow> date \<Rightarrow> date \<Rightarrow> Record \<Rightarrow> error + congratulation option" where
  "upcoming_body pf date_today date_today_plus_week rec =
     (case birthday rec of
        None \<Rightarrow> Inr None
      | Some b \<Rightarrow>
          (case date_replace_year (datetime_date (birthday_value b)) (year date_today) of
             Inl e \<Rightarrow> Inl e
           | Inr user_birthday \<Rightarrow>
               if date_le date_today user_birthday \<and> date_le user_birthday date_today_plus_week
               then
                 (case (if weekday user_birthday \<in> set [5, 6]
                        then date_add_days user_birthday (7 - weekday user_birthday)
                        else Inr user_birthday) of
                    Inl e \<Rightarrow> Inl e
                  | Inr shifted \<Rightarrow>
                      Inr (Some \<lparr>congratulation_name = name_value (name rec),
                                 congratulation_date = strftime_dmY pf shifted\<rparr>))
               else Inr None))"

fun upcoming_loop ::
  "platform \<Rightarrow> date \<Rightarrow> date \<Rightarrow> Record list \<Rightarrow> congratulation list
     \<Rightarrow> error + congratulation list" where
  "upcoming_loop pf date_today date_today_plus_week [] birthdays = Inr birthdays"
| "upcoming_loop pf date_today date_today_plus_week (rec # recs) birthdays =
     (case upcoming_body pf date_today date_today_plus_week rec of
        Inl e \<Rightarrow> Inl e
      | Inr None \<Rightarrow> upcoming_loop pf date_today date_today_plus_week recs birthdays
      | Inr (Some c) \<Rightarrow> upcoming_loop pf date_today date_today_plus_week recs (birthdays @ [c]))"

definition get_upcoming_birthdays :: "platform \<Rightarrow> AddressBook \<Rightarrow> error + congratulation list" where
  "get_upcoming_birthdays pf self =
     (let date_today = datetime_date (clock pf)
      in case date_add_days date_today 7 of
           Inl e \<Rightarrow> Inl e
         | Inr date_today_plus_week \<Rightarrow>
             upcoming_loop pf date_today date_today_plus_week (dict_values (data self)) [])"

subsection \<open>Sequences of directory operations\<close>

text \<open>
  The states of a directory that \<open>add_record\<close>, \<open>find\<close> and \<open>delete\<close> reach from the
  empty one. \<open>find\<close> returns a record and leaves the directory as it is.
\<close>

datatype operation = Add_record Record | Find string | Delete string

fun perform :: "operation \<Rightarrow> AddressBook \<Rightarrow> AddressBook" where
  "perform (Add_record rec) book = add_record rec book"
| "perform (Find n) book = (case find_record n book of _ \<Rightarrow> book)"
| "perform (Delete n) book = delete n book"

fun perform_all :: "operation list \<Rightarrow> AddressBook \<Rightarrow> AddressBook" where
  "perform_all [] book = book"
| "perform_all (x # xs) book = perform_all xs (perform x book)"

definition keys_mirror_names :: "AddressBook \<Rightarrow> bool" where
  "keys_mirror_names book =
     (distinct (map fst (data book)) \<and>
      list_all (\<lambda>kv. name_value (name (snd kv)) = fst kv) (data book))"

section \<open>The calendar: ordinals, dates and weekdays\<close>

text \<open>
  A year is 400-year cycles, centuries, 4-year cycles and single years; the days before it
  and its being a leap year follow from the four numbers.
\<close>

lemma days_before_year_cycles:
  assumes "0 \<le> c" "c < 4" "0 \<le> q" "q < 25" "0 \<le> h" "h < 4"
  shows "days_before_year (400 * k + 100 * c + 4 * q + h + 1) =
           146097 * k + 36524 * c + 1461 * q + 365 * h"
proof -
  let ?z = "400 * k + 100 * c + 4 * q + h"
  have d4: "?z div 4 = 100 * k + 25 * c + q"
    by (rule int_div_pos_eq [where r = h]) (use assms in simp_all)
  have d100: "?z div 100 = 4 * k + c"
    by (rule int_div_pos_eq [where r = "4 * q + h"]) (use assms in simp_all)
  have d400: "?z div 400 = k"
    by (rule int_div_pos_eq [where r = "100 * c + 4 * q + h"]) (use assms in simp_all)
  show ?thesis
    by (simp add: days_before_year_def Let_def d4 d100 d400)
qed


lemma mod_zero_iff_eq:
  fixes x b :: int
  assumes "0 < x" "x \<le> b"
  shows "(x mod b = 0) = (x = b)"
proof (cases "x = b")
  case True
  then show ?thesis by simp
next
  case False
  with assms have "x mod b = x" by simp
  with assms False show ?thesis by simp
qed

lemma is_leap_cycles:
  assumes "0 \<le> c" "c < 4" "0 \<le> q" "q < 25" "0 \<le> h" "h < 4"
  shows "is_leap (400 * k + 100 * c + 4 * q + h + 1) = (h = 3 \<and> (q \<noteq> 24 \<or> c = 3))"
proof -
  let ?y = "400 * k + 100 * c + 4 * q + h + 1"
  have m4: "?y mod 4 = (h + 1) mod 4"
  proof -
    have "?y = (h + 1) + (100 * k + 25 * c + q) * 4" by simp
    then show ?thesis by (metis mod_mult_self1)
  qed
  have m100: "?y mod 100 = (4 * q + h + 1) mod 100"
  proof -
    have "?y = (4 * q + h + 1) + (4 * k + c) * 100" by simp
    then show ?thesis by (metis mod_mult_self1)
  qed
  have m400: "?y mod 400 = (100 * c + 4 * q + h + 1) mod 400"
  proof -
    have "?y = (100 * c + 4 * q + h + 1) + k * 400" by simp
    then show ?thesis by (metis mod_mult_self1)
  qed
  have e4: "((h + 1) mod 4 = 0) = (h = 3)"
    using mod_zero_iff_eq [of "h + 1" 4] assms by auto
  have q24: "(4 * q + h = 99) = (h = 3 \<and> q = 24)"
    using assms(3-6) by presburger
  have e100: "((4 * q + h + 1) mod 100 = 0) = (h = 3 \<and> q = 24)"
    using mod_zero_iff_eq [of "4 * q + h + 1" 100] assms(3-6) q24 by simp
  have c3: "(100 * c + (4 * q + h) = 399) = (h = 3 \<and> q = 24 \<and> c = 3)"
  proof
    assume *: "100 * c + (4 * q + h) = 399"
    have "c = 3" using * assms by linarith
    with * q24 show "h = 3 \<and> q = 24 \<and> c = 3" by simp
  qed simp
  have e400: "((100 * c + 4 * q + h + 1) mod 400 = 0) = (h = 3 \<and> q = 24 \<and> c = 3)"
    using mod_zero_iff_eq [of "100 * c + 4 * q + h + 1" 400] assms c3 by simp
  show ?thesis unfolding is_leap_def m4 m100 m400 e4 e100 e400 by blast
qed

lemma year_cycles:
  fixes z :: int
  assumes "0 \<le> z"
  obtains k c q h where "z = 400 * k + 100 * c + 4 * q + h"
    "0 \<le> k" "0 \<le> c" "c < 4" "0 \<le> q" "q < 25" "0 \<le> h" "h < 4"
proof
  let ?k = "z div 400" and ?r = "z mod 400"
  let ?c = "?r div 100" and ?s = "?r mod 100"
  let ?q = "?s div 4" and ?h = "?s mod 4"
  have "z = 400 * ?k + ?r" by simp
  moreover have "?r = 100 * ?c + ?s" by simp
  moreover have "?s = 4 * ?q + ?h" by simp
  ultimately show "z = 400 * ?k + 100 * ?c + 4 * ?q + ?h" by linarith
  show "0 \<le> ?k" using assms by (simp add: pos_imp_zdiv_nonneg_iff)
  have r: "0 \<le> ?r" "?r < 400" by simp_all
  show "0 \<le> ?c" using r by (simp add: pos_imp_zdiv_nonneg_iff)
  show "?c < 4" using r by arith
  have s: "0 \<le> ?s" "?s < 100" by simp_all
  show "0 \<le> ?q" using s by (simp add: pos_imp_zdiv_nonneg_iff)
  show "?q < 25" using s by arith
  show "0 \<le> ?h" "?h < 4" by simp_all
qed

lemma month_cases:
  assumes "1 \<le> m" "m \<le> 12"
  shows "m = 1 \<or> m = 2 \<or> m = 3 \<or> m = 4 \<or> m = 5 \<or> m = 6 \<or> m = 7 \<or> m = 8 \<or> m = 9 \<or>
         m = 10 \<or> m = 11 \<or> m = (12::int)"
proof -
  have s: "\<And>a::int. a \<le> m \<Longrightarrow> m = a \<or> a + 1 \<le> m" by linarith
  show ?thesis
    using assms s[of 1] s[of 2] s[of 3] s[of 4] s[of 5] s[of 6] s[of 7] s[of 8] s[of 9]
      s[of 10] s[of 11] s[of 12]
    by auto
qed

lemma DAYS_BEFORE_MONTH_nth:
  "DAYS_BEFORE_MONTH ! Suc 0 = 0" "DAYS_BEFORE_MONTH ! 2 = 31" "DAYS_BEFORE_MONTH ! 3 = 59"
  "DAYS_BEFORE_MONTH ! 4 = 90" "DAYS_BEFORE_MONTH ! 5 = 120" "DAYS_BEFORE_MONTH ! 6 = 151"
  "DAYS_BEFORE_MONTH ! 7 = 181" "DAYS_BEFORE_MONTH ! 8 = 212" "DAYS_BEFORE_MONTH ! 9 = 243"
  "DAYS_BEFORE_MONTH ! 10 = 273" "DAYS_BEFORE_MONTH ! 11 = 304" "DAYS_BEFORE_MONTH ! 12 = 334"
  by (simp_all add: DAYS_BEFORE_MONTH_def)

lemma DAYS_IN_MONTH_nth:
  "DAYS_IN_MONTH ! Suc 0 = 31" "DAYS_IN_MONTH ! 2 = 28" "DAYS_IN_MONTH ! 3 = 31"
  "DAYS_IN_MONTH ! 4 = 30" "DAYS_IN_MONTH ! 5 = 31" "DAYS_IN_MONTH ! 6 = 30"
  "DAYS_IN_MONTH ! 7 = 31" "DAYS_IN_MONTH ! 8 = 31" "DAYS_IN_MONTH ! 9 = 30"
  "DAYS_IN_MONTH ! 10 = 31" "DAYS_IN_MONTH ! 11 = 30" "DAYS_IN_MONTH ! 12 = 31"
  by (simp_all add: DAYS_IN_MONTH_def)

lemma month_of_day_number:
  fixes L :: bool
  assumes "0 \<le> r" "r < 365"
    and m: "m = (r + 50) div 32"
    and p: "p = DAYS_BEFORE_MONTH ! nat m + (if m > 2 \<and> L then 1 else 0)"
    and m': "m' = (if p > r then m - 1 else m)"
    and d': "d' = r - (if p > r
       then p - (DAYS_IN_MONTH ! nat (m - 1) + (if m - 1 = 2 \<and> L then 1 else 0)) else p) + 1"
  shows "1 \<le> m' \<and> m' \<le> 12 \<and> 1 \<le> d' \<and>
         d' \<le> (if m' = 2 \<and> L then 29 else DAYS_IN_MONTH ! nat m') \<and>
         DAYS_BEFORE_MONTH ! nat m' + (if m' > 2 \<and> L then 1 else 0) + d' = r + 1"
proof -
  have lo: "32 * m \<le> r + 50" and hi: "r + 50 < 32 * m + 32"
    unfolding m by (simp_all add: div_int_pos_iff)
  then have "1 \<le> m" "m \<le> 12" using assms(1,2) by linarith+
  from month_cases [OF this] show ?thesis
    using lo hi assms(1,2)
    by (elim disjE)
       (simp_all add: m' d' p DAYS_BEFORE_MONTH_nth DAYS_IN_MONTH_nth)
qed

lemma ord2ymd_roundtrip:
  assumes "1 \<le> n"
  shows "ymd2ord (year (ord2ymd n)) (month (ord2ymd n)) (day (ord2ymd n)) = n \<and>
         1 \<le> year (ord2ymd n) \<and> (n \<le> MAXORDINAL \<longrightarrow> year (ord2ymd n) \<le> MAXYEAR) \<and>
         1 \<le> month (ord2ymd n) \<and> month (ord2ymd n) \<le> 12 \<and>
         1 \<le> day (ord2ymd n) \<and>
         day (ord2ymd n) \<le> days_in_month (year (ord2ymd n)) (month (ord2ymd n))"
proof -
  define a where "a = n - 1"
  define k where "k = a div 146097"
  define r1 where "r1 = a mod 146097"
  define c where "c = r1 div 36524"
  define r2 where "r2 = r1 mod 36524"
  define q where "q = r2 div 1461"
  define r3 where "r3 = r2 mod 1461"
  define h where "h = r3 div 365"
  define r where "r = r3 mod 365"
  define L where "L = (h = 3 \<and> (q \<noteq> 24 \<or> c = 3))"
  define y where "y = k * 400 + 1 + c * 100 + q * 4 + h"
  have a0: "0 \<le> a" using assms by (simp add: a_def)
  have k0: "0 \<le> k" using a0 by (simp add: k_def pos_imp_zdiv_nonneg_iff)
  have r1b: "0 \<le> r1" "r1 < 146097" by (simp_all add: r1_def)
  have r2b: "0 \<le> r2" "r2 < 36524" by (simp_all add: r2_def)
  have r3b: "0 \<le> r3" "r3 < 1461" by (simp_all add: r3_def)
  have rb: "0 \<le> r" "r < 365" by (simp_all add: r_def)
  have e1: "a = 146097 * k + r1" by (simp add: k_def r1_def)
  have e2: "r1 = 36524 * c + r2" by (simp add: c_def r2_def)
  have e3: "r2 = 1461 * q + r3" by (simp add: q_def r3_def)
  have e4: "r3 = 365 * h + r" by (simp add: h_def r_def)
  have c0: "0 \<le> c" using r1b by (simp add: c_def pos_imp_zdiv_nonneg_iff)
  have q0: "0 \<le> q" using r2b by (simp add: q_def pos_imp_zdiv_nonneg_iff)
  have h0: "0 \<le> h" using r3b by (simp add: h_def pos_imp_zdiv_nonneg_iff)
  have c4: "c \<le> 4" using r1b r2b e2 by linarith
  have q24: "q < 25" using r2b r3b e3 by linarith
  have h4: "h \<le> 4" using r3b rb e4 by linarith
  have n_eq: "n = 146097 * k + 36524 * c + 1461 * q + 365 * h + r + 1"
    using e1 e2 e3 e4 by (simp add: a_def)
  have k24: "n \<le> MAXORDINAL \<Longrightarrow> k \<le> 24"
    using n_eq c0 q0 h0 rb by (simp add: MAXORDINAL_def)
  define m where "m = (r + 50) div 32"
  define p where "p = DAYS_BEFORE_MONTH ! nat m + (if m > 2 \<and> L then 1 else 0)"
  define m' where "m' = (if p > r then m - 1 else m)"
  define d' where "d' = r - (if p > r
       then p - (DAYS_IN_MONTH ! nat (m - 1) + (if m - 1 = 2 \<and> L then 1 else 0)) else p) + 1"
  have ord: "ord2ymd n =
     (if h = 4 \<or> c = 4 then \<lparr>year = y - 1, month = 12, day = 31\<rparr>
      else if DAYS_BEFORE_MONTH ! nat ((r + 50) div 32)
                + (if (r + 50) div 32 > 2 \<and> L then 1 else 0) > r
           then \<lparr>year = y, month = (r + 50) div 32 - 1,
                 day = r - (DAYS_BEFORE_MONTH ! nat ((r + 50) div 32)
                   + (if (r + 50) div 32 > 2 \<and> L then 1 else 0)
                   - (DAYS_IN_MONTH ! nat ((r + 50) div 32 - 1)
                      + (if (r + 50) div 32 - 1 = 2 \<and> L then 1 else 0))) + 1\<rparr>
           else \<lparr>year = y, month = (r + 50) div 32,
                 day = r - (DAYS_BEFORE_MONTH ! nat ((r + 50) div 32)
                   + (if (r + 50) div 32 > 2 \<and> L then 1 else 0)) + 1\<rparr>)"
    unfolding ord2ymd_def Let_def DI400Y_def DI100Y_def DI4Y_def y_def L_def r_def h_def
      r3_def q_def r2_def c_def r1_def k_def a_def
    by simp
  define m where "m = (r + 50) div 32"
  define p where "p = DAYS_BEFORE_MONTH ! nat m + (if m > 2 \<and> L then 1 else 0)"
  define m' where "m' = (if p > r then m - 1 else m)"
  define d' where "d' = r - (if p > r
       then p - (DAYS_IN_MONTH ! nat (m - 1) + (if m - 1 = 2 \<and> L then 1 else 0)) else p) + 1"
  have ord': "ord2ymd n =
     (if h = 4 \<or> c = 4 then \<lparr>year = y - 1, month = 12, day = 31\<rparr>
      else if p > r
           then \<lparr>year = y, month = m - 1,
                 day = r - (p - (DAYS_IN_MONTH ! nat (m - 1)
                      + (if m - 1 = 2 \<and> L then 1 else 0))) + 1\<rparr>
           else \<lparr>year = y, month = m, day = r - p + 1\<rparr>)"
    unfolding ord p_def m_def by (rule refl)
  show ?thesis
  proof (cases "c = 4")
    case True
    define Y where "Y = y - 1"
    have "r2 = 0" using True r1b r2b e2 by linarith
    then have z: "q = 0" "h = 0" "r = 0" by (simp_all add: q_def r3_def h_def r_def)
    have yr: "Y = 400 * k + 100 * 3 + 4 * 24 + 3 + 1"
      using True z by (simp add: y_def Y_def)
    have dby: "days_before_year Y = 146097 * k + 36524 * 3 + 1461 * 24 + 365 * 3"
      unfolding yr by (rule days_before_year_cycles) simp_all
    have lp: "is_leap Y"
      unfolding yr by (subst is_leap_cycles) simp_all
    have o: "ord2ymd n = \<lparr>year = Y, month = 12, day = 31\<rparr>"
      using True by (simp add: ord Y_def)
    have Y1: "1 \<le> Y" using k0 by (simp add: yr)
    have Ymax: "n \<le> MAXORDINAL \<Longrightarrow> Y \<le> MAXYEAR"
      using n_eq True z by (simp add: yr MAXORDINAL_def MAXYEAR_def)
    show ?thesis
      unfolding o using n_eq True z Y1 Ymax
      by (simp add: ymd2ord_def dby lp days_before_month_def days_in_month_def
          DAYS_BEFORE_MONTH_nth DAYS_IN_MONTH_nth)
  next
    case c4': False
    then have c3: "c < 4" using c4 by simp
    show ?thesis
    proof (cases "h = 4")
      case True
      define Y where "Y = y - 1"
      have rz: "r = 0" using True r3b rb e4 by linarith
      have q23: "q < 24" using True r2b e3 e4 rz by linarith
      have yr: "Y = 400 * k + 100 * c + 4 * q + 3 + 1"
        using True by (simp add: y_def Y_def)
      have dby: "days_before_year Y = 146097 * k + 36524 * c + 1461 * q + 365 * 3"
        unfolding yr by (rule days_before_year_cycles) (use c0 c3 q0 q24 in simp_all)
      have lp: "is_leap Y"
        unfolding yr by (subst is_leap_cycles) (use c0 c3 q0 q24 q23 in simp_all)
      have o: "ord2ymd n = \<lparr>year = Y, month = 12, day = 31\<rparr>"
        using True by (simp add: ord Y_def)
      have Y1: "1 \<le> Y" using k0 c0 q0 by (simp add: yr)
      have Ymax: "n \<le> MAXORDINAL \<Longrightarrow> Y \<le> MAXYEAR"
        using k24 c3 q23 by (simp add: yr MAXYEAR_def)
      show ?thesis
        unfolding o using n_eq True rz Y1 Ymax
        by (simp add: ymd2ord_def dby lp days_before_month_def days_in_month_def
            DAYS_BEFORE_MONTH_nth DAYS_IN_MONTH_nth)
    next
      case False
      then have h3: "h < 4" using h4 by simp
      have yr: "y = 400 * k + 100 * c + 4 * q + h + 1" by (simp add: y_def)
      have dby: "days_before_year y = 146097 * k + 36524 * c + 1461 * q + 365 * h"
        unfolding yr by (rule days_before_year_cycles) (use c0 c3 q0 q24 h0 h3 in simp_all)
      have lp: "is_leap y = L"
        unfolding yr L_def by (rule is_leap_cycles) (use c0 c3 q0 q24 h0 h3 in simp_all)
      have y1: "1 \<le> y" using k0 c0 q0 h0 by (simp add: yr)
      have ymax: "y \<le> MAXYEAR" if "n \<le> MAXORDINAL"
      proof -
        have k: "k \<le> 24" using that by (rule k24)
        have "c \<le> 2 \<or> q \<le> 23 \<or> h \<le> 2 \<or> k \<le> 23"
          using that n_eq rb by (simp add: MAXORDINAL_def) linarith
        then show ?thesis
          using k c3 q24 h3 by (auto simp: yr MAXYEAR_def)
      qed
      have o: "ord2ymd n = \<lparr>year = y, month = m', day = d'\<rparr>"
        using c4' False by (simp add: ord' m'_def d'_def)
      from month_of_day_number [OF rb m_def p_def m'_def d'_def]
      show ?thesis
        unfolding o using y1 ymax n_eq
        by (simp add: ymd2ord_def dby lp days_before_month_def days_in_month_def)
    qed
  qed
qed

text \<open>Dates the constructor accepts have an ordinal between 1 and \<open>MAXORDINAL\<close>.\<close>

lemma date_new_Inr:
  "(date_new y m d = Inr x) = (x = \<lparr>year = y, month = m, day = d\<rparr> \<and> valid_date x)"
  by (auto simp: date_new_def valid_date_def)

lemma date_new_Inl:
  "date_new y m d = Inl e \<Longrightarrow> \<exists>msg. e = ValueError msg"
  by (auto simp: date_new_def split: if_splits)

lemma day_of_year_bounds:
  assumes "1 \<le> m" "m \<le> 12" "1 \<le> d" "d \<le> days_in_month y m"
  shows "1 \<le> days_before_month y m + d \<and>
         days_before_month y m + d \<le> (if is_leap y then 366 else 365)"
  using month_cases [OF assms(1,2)] assms(3,4)
  by (elim disjE)
     (simp_all add: days_before_month_def days_in_month_def DAYS_BEFORE_MONTH_nth
        DAYS_IN_MONTH_nth split: if_splits)

lemma ymd2ord_bounds:
  assumes "1 \<le> y" "y \<le> MAXYEAR" "1 \<le> m" "m \<le> 12" "1 \<le> d" "d \<le> days_in_month y m"
  shows "1 \<le> ymd2ord y m d \<and> ymd2ord y m d \<le> MAXORDINAL"
proof -
  obtain k c q h where z: "y - 1 = 400 * k + 100 * c + 4 * q + h"
    and b: "0 \<le> k" "0 \<le> c" "c < 4" "0 \<le> q" "q < 25" "0 \<le> h" "h < 4"
    by (rule year_cycles [of "y - 1"]) (use assms(1) in auto)
  have yr: "y = 400 * k + 100 * c + 4 * q + h + 1" using z by simp
  have dby: "days_before_year y = 146097 * k + 36524 * c + 1461 * q + 365 * h"
    unfolding yr using b(2-) by (rule days_before_year_cycles)
  have lp: "is_leap y = (h = 3 \<and> (q \<noteq> 24 \<or> c = 3))"
    unfolding yr using b(2-) by (rule is_leap_cycles)
  note md = day_of_year_bounds [OF assms(3-6)]
  have y_le: "400 * k + 100 * c + 4 * q + h \<le> 9998"
    using assms(2) by (simp add: yr MAXYEAR_def)
  have k24: "k \<le> 24" using y_le b by linarith
  have top: "146097 * k + 36524 * c + 1461 * q + 365 * h + (if is_leap y then 366 else 365)
               \<le> 3652059"
  proof (cases "k \<le> 23")
    case True
    then show ?thesis using b by (simp split: if_splits)
  next
    case False
    then have k: "k = 24" using k24 by simp
    show ?thesis
    proof (cases "c = 3")
      case c3: True
      show ?thesis
      proof (cases "q = 24")
        case True
        then have "h \<le> 2" using y_le k c3 by simp
        then show ?thesis using k c3 True by (simp add: lp)
      next
        case False
        then have "q \<le> 23" using b by simp
        then show ?thesis using k c3 b by (simp split: if_splits)
      qed
    next
      case False
      then have "c \<le> 2" using b by simp
      then show ?thesis using k b by (simp split: if_splits)
    qed
  qed
  have "0 \<le> days_before_year y" using b by (simp add: dby)
  then show ?thesis
    using md top by (simp add: ymd2ord_def dby MAXORDINAL_def split: if_splits)
qed

lemma toordinal_bounds:
  "valid_date d \<Longrightarrow> 1 \<le> toordinal d \<and> toordinal d \<le> MAXORDINAL"
  unfolding valid_date_def toordinal_def by (rule ymd2ord_bounds) simp_all

lemma fromordinal_toordinal:
  assumes "1 \<le> n" "n \<le> MAXORDINAL"
  shows "toordinal (fromordinal n) = n" and "valid_date (fromordinal n)"
  using ord2ymd_roundtrip [OF assms(1)] assms(2)
  by (simp_all add: toordinal_def fromordinal_def valid_date_def)

lemma date_add_days_Inr:
  assumes "valid_date d" "date_add_days d k = Inr x"
  shows "toordinal x = toordinal d + k" and "valid_date x"
    and "weekday x = (weekday d + k) mod 7"
proof -
  from assms(2) have r: "0 < toordinal d + k" "toordinal d + k \<le> MAXORDINAL"
    and x: "x = fromordinal (toordinal d + k)"
    by (auto simp: date_add_days_def Let_def split: if_splits)
  from r have r1: "1 \<le> toordinal d + k" by simp
  show t: "toordinal x = toordinal d + k" unfolding x using r1 r(2) by (rule fromordinal_toordinal)
  show "valid_date x" unfolding x using r1 r(2) by (rule fromordinal_toordinal)
  show "weekday x = (weekday d + k) mod 7"
    by (simp add: weekday_def t mod_simps algebra_simps)
qed

lemma weekend_shift_in_range:
  assumes "valid_date d" "weekday d = 5 \<or> weekday d = 6"
  shows "\<exists>x. date_add_days d (7 - weekday d) = Inr x"
proof -
  from toordinal_bounds [OF assms(1)]
  have b: "1 \<le> toordinal d" "toordinal d \<le> 3652059" by (simp_all add: MAXORDINAL_def)
  have "toordinal d + (7 - weekday d) \<le> 3652059"
    using assms(2) b unfolding weekday_def by presburger
  then show ?thesis
    using b assms(2) by (auto simp: date_add_days_def Let_def MAXORDINAL_def)
qed

section \<open>Decimal text: printing and parsing dates\<close>

lemma digit_char_table:
  "digit_char 0 = CHR ''0''" "digit_char 1 = CHR ''1''" "digit_char 2 = CHR ''2''"
  "digit_char 3 = CHR ''3''" "digit_char 4 = CHR ''4''" "digit_char 5 = CHR ''5''"
  "digit_char 6 = CHR ''6''" "digit_char 7 = CHR ''7''" "digit_char 8 = CHR ''8''"
  "digit_char 9 = CHR ''9''" "digit_char (Suc 0) = CHR ''1''"
  unfolding digit_char_def by simp_all

lemma t2: "two_digits 17 = ''17''" by (simp add: two_digits_def digit_char_table)

lemma str_nat_lt10: "n < 10 \<Longrightarrow> str_nat n = [digit_char n]"
  by (subst str_nat.simps) simp

lemma str_nat_lt100:
  assumes "10 \<le> n" "n < 100"
  shows "str_nat n = [digit_char (n div 10), digit_char (n mod 10)]"
proof -
  have "n div 10 < 10" using assms(2) by (simp add: less_mult_imp_div_less)
  then show ?thesis using assms(1) by (subst str_nat.simps) (simp add: str_nat_lt10)
qed

lemma str_nat_lt1000:
  assumes "100 \<le> n" "n < 1000"
  shows "str_nat n = [digit_char (n div 100), digit_char (n div 10 mod 10), digit_char (n mod 10)]"
proof -
  have "n div 10 < 100" using assms(2) by (simp add: less_mult_imp_div_less)
  moreover have "10 \<le> n div 10" using div_le_mono [OF assms(1), of 10] by simp
  moreover have "n div 10 div 10 = n div 100" by (simp add: div_mult2_eq [symmetric])
  ultimately show ?thesis
    using assms(1) by (subst str_nat.simps) (simp add: str_nat_lt100)
qed

lemma str_nat_lt10000:
  assumes "1000 \<le> n" "n < 10000"
  shows "str_nat n = [digit_char (n div 1000), digit_char (n div 100 mod 10),
                digit_char (n div 10 mod 10), digit_char (n mod 10)]"
proof -
  have "n div 10 < 1000" using assms(2) by (simp add: less_mult_imp_div_less)
  moreover have "100 \<le> n div 10" using div_le_mono [OF assms(1), of 10] by simp
  moreover have "n div 10 div 100 = n div 1000" by (simp add: div_mult2_eq [symmetric])
  moreover have "n div 10 div 10 = n div 100" by (simp add: div_mult2_eq [symmetric])
  ultimately show ?thesis
    using assms(1) by (subst str_nat.simps) (simp add: str_nat_lt1000)
qed

lemma replicate_small:
  "replicate 2 x = [x, x]" "replicate 3 x = [x, x, x]"
  by (simp_all add: numeral_2_eq_2 numeral_3_eq_3)

lemma zfill_2:
  assumes "0 \<le> n" "n < 100"
  shows "zfill 2 (str_int n) = two_digits n"
proof (cases "n < 10")
  case True
  with assms(1) have "nat n < 10" "nat n div 10 = 0" by simp_all
  with assms(1) show ?thesis
    by (simp add: str_int_def str_nat_lt10 zfill_def two_digits_def digit_char_table)
next
  case False
  with assms have "10 \<le> nat n" "nat n < 100" by simp_all
  with assms(1) show ?thesis
    by (simp add: str_int_def str_nat_lt100 zfill_def two_digits_def)
qed

lemma str_int_four: 
  assumes "1000 \<le> n" "n < 10000" 
  shows "str_int n = four_digits n"
proof -
  from assms have "1000 \<le> nat n" "nat n < 10000" by simp_all
  with assms show ?thesis by (simp add: str_int_def str_nat_lt10000 four_digits_def)
qed

lemma zfill_4: 
  assumes "0 \<le> n" "n < 10000" 
  shows "zfill 4 (str_int n) = four_digits n"
proof -
  consider "n < 10" | "10 \<le> n" "n < 100" | "100 \<le> n" "n < 1000" | "1000 \<le> n"
    by linarith
  then show ?thesis
  proof cases
    case 1
    with assms(1) have "nat n < 10" by simp
    then have "nat n div 1000 = 0" "nat n div 100 = 0" "nat n div 10 = 0" by simp_all
    with assms(1) \<open>nat n < 10\<close> show ?thesis
      by (simp add: str_int_def str_nat_lt10 zfill_def four_digits_def digit_char_table
          replicate_small)
  next
    case 2
    with assms(1) have b: "10 \<le> nat n" "nat n < 100" by simp_all
    then have "nat n div 1000 = 0" "nat n div 100 = 0" by simp_all
    moreover have "nat n div 10 < 10" using b(2) by (simp add: less_mult_imp_div_less)
    ultimately show ?thesis using assms(1) b
      by (simp add: str_int_def str_nat_lt100 zfill_def four_digits_def digit_char_table
          replicate_small)
  next
    case 3
    with assms(1) have b: "100 \<le> nat n" "nat n < 1000" by simp_all
    then have "nat n div 1000 = 0" by simp
    moreover have "nat n div 100 < 10" using b(2) by (simp add: less_mult_imp_div_less)
    ultimately show ?thesis using assms(1) b
      by (simp add: str_int_def str_nat_lt1000 zfill_def four_digits_def digit_char_table
          replicate_small)
  next
    case 4
    with assms show ?thesis
      by (simp add: str_int_four zfill_def four_digits_def)
  qed
qed

lemma days_in_month_le_31: "1 \<le> m \<Longrightarrow> m \<le> 12 \<Longrightarrow> days_in_month y m \<le> 31"
proof -
  assume "1 \<le> m" "m \<le> 12"
  from month_cases [OF this] show ?thesis
    by (elim disjE) (simp_all add: days_in_month_def DAYS_IN_MONTH_nth)
qed

lemma valid_date_ranges:
  assumes "valid_date d"
  shows "0 \<le> day d" "day d < 100" "0 \<le> month d" "month d < 100"
    "0 \<le> year d" "year d < 10000"
  using assms days_in_month_le_31 [of "month d" "year d"]
  by (simp_all add: valid_date_def MAXYEAR_def)

lemma strftime_dmY_canonical:
  assumes "valid_date d" "pads_year pf \<or> 1000 \<le> year d"
  shows "strftime_dmY pf d = DD_MM_YYYY d"
  using valid_date_ranges [OF assms(1)] assms(2)
  by (auto simp: strftime_dmY_def DD_MM_YYYY_def zfill_2 zfill_4 str_int_four)

lemma of_char_digit_char: "k < 10 \<Longrightarrow> of_char (digit_char k) = 48 + k"
proof -
  assume "k < 10"
  then have "k \<in> {0, 1, 2, 3, 4, 5, 6, 7, 8, 9}" by auto
  then show ?thesis unfolding digit_char_def by auto
qed

lemma digit_char_props:
  assumes "k < 10"
  shows "ascii_digit (digit_char k)" "digit_value (digit_char k) = int k"
    "digit_char k \<noteq> CHR '' ''" "digit_char k \<noteq> CHR ''.''"
  using of_char_digit_char [OF assms] assms
  by (auto simp: ascii_digit_def digit_value_def)

lemma digits_below_ten:
  fixes n :: nat
  shows "n mod 10 < 10" "n < 100 \<Longrightarrow> n div 10 < 10" "n < 10000 \<Longrightarrow> n div 1000 < 10"
  by (simp_all add: less_mult_imp_div_less)

lemma py_int_two_digits:
  assumes "0 \<le> n" "n < 100"
  shows "py_int (two_digits n) = n"
proof -
  let ?k = "nat n"
  from assms have "?k < 100" by simp
  then have "?k div 10 < 10" by (rule digits_below_ten)
  then have "py_int (two_digits n) = 10 * int (?k div 10) + int (?k mod 10)"
    using digits_below_ten(1) [of ?k]
    by (simp add: py_int_def two_digits_def digit_char_props)
  also have "\<dots> = n" using assms(1) by (simp add: zdiv_int zmod_int)
  finally show ?thesis .
qed

lemma four_digit_sum:
  fixes k :: nat
  shows "1000 * (k div 1000) + 100 * (k div 100 mod 10) + 10 * (k div 10 mod 10) + k mod 10 = k"
proof -
  have a: "k = 10 * (k div 10) + k mod 10" by simp
  have b: "k div 10 = 10 * (k div 100) + k div 10 mod 10"
    using div_mult_mod_eq [of "k div 10" 10] by (simp add: div_mult2_eq [symmetric])
  have c: "k div 100 = 10 * (k div 1000) + k div 100 mod 10"
    using div_mult_mod_eq [of "k div 100" 10] by (simp add: div_mult2_eq [symmetric])
  show ?thesis using a b c by linarith
qed

lemma py_int_four_digits:
  assumes "0 \<le> n" "n < 10000"
  shows "py_int (four_digits n) = n"
proof -
  let ?k = "nat n"
  from assms have k: "?k < 10000" by simp
  then have a: "?k div 1000 < 10" by (rule digits_below_ten)
  have "py_int (four_digits n) =
          int (1000 * (?k div 1000) + 100 * (?k div 100 mod 10) + 10 * (?k div 10 mod 10)
             + ?k mod 10)"
    using a by (simp add: py_int_def four_digits_def digit_char_props)
  also have "\<dots> = int ?k" by (simp only: four_digit_sum)
  finally show ?thesis using assms(1) by simp
qed

lemma rmatch_Digit_digit_char: "k < 10 \<Longrightarrow> rmatch Digit (digit_char k # r) = [r]"
  by (simp add: digit_char_props)

lemma named_group_RE_Y:
  assumes "0 \<le> y" "y < 10000"
  shows "named_group RE_Y (four_digits y @ rest) = [(four_digits y, rest)]"
proof -
  let ?k = "nat y"
  from assms have "?k < 10000" by simp
  then have a: "?k div 1000 < 10" by (rule digits_below_ten)
  have b: "?k div 100 mod 10 < 10" "?k div 10 mod 10 < 10" "?k mod 10 < 10" by simp_all
  show ?thesis
    using a b
    by (simp add: named_group_def RE_Y_def four_digits_def digit_char_props)
qed

lemma day_cases:
  assumes "1 \<le> dd" "dd \<le> 31"
  shows "dd = 1 \<or> dd = 2 \<or> dd = 3 \<or> dd = 4 \<or> dd = 5 \<or> dd = 6 \<or> dd = 7 \<or> dd = 8 \<or> dd = 9 \<or>
         dd = 10 \<or> dd = 11 \<or> dd = 12 \<or> dd = 13 \<or> dd = 14 \<or> dd = 15 \<or> dd = 16 \<or> dd = 17 \<or>
         dd = 18 \<or> dd = 19 \<or> dd = 20 \<or> dd = 21 \<or> dd = 22 \<or> dd = 23 \<or> dd = 24 \<or> dd = 25 \<or>
         dd = 26 \<or> dd = 27 \<or> dd = 28 \<or> dd = 29 \<or> dd = 30 \<or> dd = (31::int)"
proof -
  have s: "\<And>a::int. a \<le> dd \<Longrightarrow> dd = a \<or> a + 1 \<le> dd" by linarith
  have "dd \<le> 12 \<or> 13 \<le> dd" by linarith
  then show ?thesis
  proof
    assume "dd \<le> 12"
    from month_cases [OF assms(1) this] show ?thesis by blast
  next
    assume a: "13 \<le> dd"
    have "dd \<le> 22 \<or> 23 \<le> dd" by linarith
    then show ?thesis
    proof
      assume "dd \<le> 22"
      then show ?thesis
        using a s[of 13] s[of 14] s[of 15] s[of 16] s[of 17] s[of 18] s[of 19] s[of 20]
          s[of 21] s[of 22]
        by auto
    next
      assume "23 \<le> dd"
      then show ?thesis
        using assms(2) s[of 23] s[of 24] s[of 25] s[of 26] s[of 27] s[of 28] s[of 29]
          s[of 30] s[of 31]
        by auto
    qed
  qed
qed

lemma two_digits_table:
  "two_digits 1 = ''01''" "two_digits 2 = ''02''" "two_digits 3 = ''03''" "two_digits 4 = ''04''"
  "two_digits 5 = ''05''" "two_digits 6 = ''06''" "two_digits 7 = ''07''" "two_digits 8 = ''08''"
  "two_digits 9 = ''09''" "two_digits 10 = ''10''" "two_digits 11 = ''11''"
  "two_digits 12 = ''12''" "two_digits 13 = ''13''" "two_digits 14 = ''14''"
  "two_digits 15 = ''15''" "two_digits 16 = ''16''" "two_digits 17 = ''17''"
  "two_digits 18 = ''18''" "two_digits 19 = ''19''" "two_digits 20 = ''20''"
  "two_digits 21 = ''21''" "two_digits 22 = ''22''" "two_digits 23 = ''23''"
  "two_digits 24 = ''24''" "two_digits 25 = ''25''" "two_digits 26 = ''26''"
  "two_digits 27 = ''27''" "two_digits 28 = ''28''" "two_digits 29 = ''29''"
  "two_digits 30 = ''30''" "two_digits 31 = ''31''"
  by (simp_all add: two_digits_def digit_char_table)

lemma match_day_then_dot:
  assumes "1 \<le> n" "n \<le> 31"
  shows "concat (map (\<lambda>(d, r0). concat (map (G d) (rmatch (Lit CHR ''.'') r0)))
           (named_group RE_d (two_digits n @ CHR ''.'' # rest)))
         = G (two_digits n) rest"
  using day_cases [OF assms]
  by (elim disjE)
     (simp_all add: two_digits_table RE_d_def named_group_def ascii_digit_def)

lemma match_month_then_dot:
  assumes "1 \<le> n" "n \<le> 12"
  shows "concat (map (\<lambda>(m, r2). concat (map (G m) (rmatch (Lit CHR ''.'') r2)))
           (named_group RE_m (two_digits n @ CHR ''.'' # rest)))
         = G (two_digits n) rest"
  using month_cases [OF assms]
  by (elim disjE)
     (simp_all add: two_digits_table RE_m_def named_group_def ascii_digit_def)

lemma match_dmY_canonical:
  assumes "valid_date d"
  shows "match_dmY (DD_MM_YYYY d)
           = [(two_digits (day d), two_digits (month d), four_digits (year d), [])]"
proof -
  from assms have r: "1 \<le> day d" "day d \<le> 31" "1 \<le> month d" "month d \<le> 12"
    "0 \<le> year d" "year d < 10000"
    using days_in_month_le_31 [of "month d" "year d"]
    by (simp_all add: valid_date_def MAXYEAR_def)
  have s: "DD_MM_YYYY d = two_digits (day d) @ CHR ''.'' #
             (two_digits (month d) @ CHR ''.'' # (four_digits (year d) @ []))"
    by (simp add: DD_MM_YYYY_def)
  show ?thesis
    unfolding match_dmY_def s
    by (simp only: match_day_then_dot [OF r(1,2)] match_month_then_dot [OF r(3,4)]
          named_group_RE_Y [OF r(5,6)])
       simp
qed

lemma strptime_dmY_canonical:
  assumes "valid_date d"
  shows "strptime_dmY (DD_MM_YYYY d)
           = Inr \<lparr>year = year d, month = month d, day = day d,
                 hour = 0, minute = 0, second = 0, microsecond = 0\<rparr>"
proof -
  note r = valid_date_ranges [OF assms]
  have "date_new (year d) (month d) (day d)
          = Inr \<lparr>year = year d, month = month d, day = day d\<rparr>"
    using assms by (simp add: date_new_def valid_date_def)
  then show ?thesis
    by (simp add: strptime_dmY_def match_dmY_canonical [OF assms] py_int_two_digits r
        py_int_four_digits)
qed

section \<open>Phone: validation at construction\<close>

lemma ascii_digits_are_digits: "list_all ascii_digit s \<Longrightarrow> list_all isdigit_char s"
  by (induction s) (simp_all add: ascii_digit_def isdigit_char_def)

text \<open>
  What the constructor does: \<open>Phone(s)\<close> succeeds exactly when \<open>s\<close> has 10 characters
  and \<open>str.isdigit\<close> holds of every one of them; the value is then stored as it was
  given, and every other text is refused with the message
  \<open>Phone number must be exactly 10 digits.\<close> Ten ASCII digits are always accepted.
\<close>

lemma Phone_init_characterised:
  "Phone_init s =
     (if length s = 10 \<and> list_all isdigit_char s then Inr \<lparr>phone_value = s\<rparr>
      else Inl (ValueError ''Phone number must be exactly 10 digits.'')) \<and>
   (length s = 10 \<and> list_all ascii_digit s \<longrightarrow> Phone_init s = Inr \<lparr>phone_value = s\<rparr>)"
  using ascii_digits_are_digits [of s] by (auto simp: Phone_init_def isdigit_def)

lemma Phone_init_examples:
  "Phone_init ''0501234567'' = Inr \<lparr>phone_value = ''0501234567''\<rparr> \<and>
   Phone_init ''050123456'' = Inl (ValueError ''Phone number must be exactly 10 digits.'') \<and>
   Phone_init ''050-123-45'' = Inl (ValueError ''Phone number must be exactly 10 digits.'')"
  using Phone_init_characterised [of "''0501234567''"]
    Phone_init_characterised [of "''050123456''"]
    Phone_init_characterised [of "''050-123-45''"]
  by (simp add: ascii_digit_def isdigit_char_def)

text \<open>
  Claim C3. The claim is that a phone is constructed if and only if the text is ten
  ASCII decimal digits, and the class says of itself that it validates that the number
  is exactly 10 digits. The code tests \<open>value.isdigit()\<close>, which also holds of digit
  characters that are no decimal digits, so it departs from the claim: the text of ten
  times U+00B2, SUPERSCRIPT TWO, holds no ASCII digit and is constructed as a phone.
\<close>

theorem Phone_init_accepts_superscripts:
  "Phone_init (replicate 10 (CHR 0xB2)) = Inr \<lparr>phone_value = replicate 10 (CHR 0xB2)\<rparr> \<and>
   \<not> list_all ascii_digit (replicate 10 (CHR 0xB2))"
  by (simp add: Phone_init_def isdigit_def isdigit_char_def ascii_digit_def numeral_eq_Suc)

theorem Phone_init_accepts_superscripts_witness:
  "\<exists>p. Phone_init (replicate 10 (CHR 0xB2)) = Inr p \<and> phone_value p = replicate 10 (CHR 0xB2)"
  using Phone_init_accepts_superscripts by simp

section \<open>Record.edit_phone\<close>

lemma length_edit_phones: "length (edit_phones old new ps) = length ps"
  by (induction ps) simp_all

lemma edit_phones_nth:
  "i < length ps \<Longrightarrow> edit_phones old new ps ! i =
     (if phone_value (ps ! i) = old then (ps ! i)\<lparr>phone_value := new\<rparr> else ps ! i)"
proof (induction ps arbitrary: i)
  case Nil
  then show ?case by simp
next
  case (Cons p ps)
  then show ?case by (cases i) simp_all
qed

lemma edit_phones_absent:
  "old \<notin> phone_value ` set ps \<Longrightarrow> edit_phones old new ps = ps"
  by (induction ps) auto

text \<open>
  Claim C6. \<open>edit_phone(old, new)\<close> keeps the number of phones; the phone at every
  position holds \<open>new\<close> if it held \<open>old\<close> and holds what it held otherwise; name and
  birthday stay; when no phone equals \<open>old\<close> the record is unchanged. \<open>new\<close> is any
  text: nothing checks it.
\<close>

theorem edit_phone_replaces_matching:
  "length (phones (edit_phone old new r)) = length (phones r) \<and>
   (\<forall>i < length (phones r).
      phone_value (phones (edit_phone old new r) ! i) =
        (if phone_value (phones r ! i) = old then new else phone_value (phones r ! i))) \<and>
   name (edit_phone old new r) = name r \<and>
   birthday (edit_phone old new r) = birthday r \<and>
   (old \<notin> phone_value ` set (phones r) \<longrightarrow> edit_phone old new r = r)"
  by (simp add: edit_phone_def length_edit_phones edit_phones_nth edit_phones_absent)

theorem edit_phone_replaces_matching_witness:
  "Phone_init ''n/a'' = Inl (ValueError ''Phone number must be exactly 10 digits.'') \<and>
   map phone_value (phones (edit_phone ''0123456789'' ''n/a''
     \<lparr>name = \<lparr>name_value = ''kate''\<rparr>,
      phones = [\<lparr>phone_value = ''0123456789''\<rparr>, \<lparr>phone_value = ''5555555555''\<rparr>,
                \<lparr>phone_value = ''0123456789''\<rparr>],
      birthday = None\<rparr>)) = [''n/a'', ''5555555555'', ''n/a''] \<and>
   ''4444444444'' \<notin> phone_value `
      set [\<lparr>phone_value = ''0123456789''\<rparr>, \<lparr>phone_value = ''5555555555''\<rparr>] \<and>
   edit_phone ''4444444444'' ''n/a''
     \<lparr>name = \<lparr>name_value = ''kate''\<rparr>,
      phones = [\<lparr>phone_value = ''0123456789''\<rparr>, \<lparr>phone_value = ''5555555555''\<rparr>],
      birthday = None\<rparr>
   = \<lparr>name = \<lparr>name_value = ''kate''\<rparr>,
      phones = [\<lparr>phone_value = ''0123456789''\<rparr>, \<lparr>phone_value = ''5555555555''\<rparr>],
      birthday = None\<rparr>"
  using edit_phone_replaces_matching [of "''4444444444''" "''n/a''"
     "\<lparr>name = \<lparr>name_value = ''kate''\<rparr>,
      phones = [\<lparr>phone_value = ''0123456789''\<rparr>, \<lparr>phone_value = ''5555555555''\<rparr>],
      birthday = None\<rparr>"]
  by (simp add: Phone_init_def isdigit_def edit_phone_def)

section \<open>A failed add_phone or add_birthday\<close>

text \<open>
  Claim C8. \<open>add_phone(raw)\<close> raises exactly when \<open>Phone(raw)\<close> does, with the same
  error, and then leaves the record as it was: same name, same phones, same birthday.
  The same holds of \<open>add_birthday(raw)\<close> and \<open>Birthday(raw)\<close>.
\<close>

theorem failed_add_leaves_record_unchanged:
  "(Phone_init raw = Inl e \<longrightarrow> add_phone raw r = (Inl e, r)) \<and>
   (fst (add_phone raw r) = Inl e \<longrightarrow> Phone_init raw = Inl e \<and> snd (add_phone raw r) = r) \<and>
   (Birthday_init raw = Inl e \<longrightarrow> add_birthday raw r = (Inl e, r)) \<and>
   (fst (add_birthday raw r) = Inl e \<longrightarrow>
      Birthday_init raw = Inl e \<and> snd (add_birthday raw r) = r)"
  by (simp add: add_phone_def add_birthday_def split: sum.splits)

theorem failed_add_leaves_record_unchanged_witness:
  "Phone_init ''12345'' = Inl (ValueError ''Phone number must be exactly 10 digits.'') \<and>
   add_phone ''12345''
     \<lparr>name = \<lparr>name_value = ''kate''\<rparr>, phones = [\<lparr>phone_value = ''0501234567''\<rparr>],
      birthday = Some \<lparr>birthday_value = \<lparr>year = 1990, month = 6, day = 17, hour = 0,
        minute = 0, second = 0, microsecond = 0\<rparr>\<rparr>\<rparr> =
     (Inl (ValueError ''Phone number must be exactly 10 digits.''),
      \<lparr>name = \<lparr>name_value = ''kate''\<rparr>, phones = [\<lparr>phone_value = ''0501234567''\<rparr>],
       birthday = Some \<lparr>birthday_value = \<lparr>year = 1990, month = 6, day = 17, hour = 0,
         minute = 0, second = 0, microsecond = 0\<rparr>\<rparr>\<rparr>) \<and>
   Birthday_init ''31.02.2020'' = Inl (ValueError ''Invalid date format. Use DD.MM.YYYY'') \<and>
   add_birthday ''31.02.2020''
     \<lparr>name = \<lparr>name_value = ''kate''\<rparr>, phones = [\<lparr>phone_value = ''0501234567''\<rparr>],
      birthday = Some \<lparr>birthday_value = \<lparr>year = 1990, month = 6, day = 17, hour = 0,
        minute = 0, second = 0, microsecond = 0\<rparr>\<rparr>\<rparr> =
     (Inl (ValueError ''Invalid date format. Use DD.MM.YYYY''),
      \<lparr>name = \<lparr>name_value = ''kate''\<rparr>, phones = [\<lparr>phone_value = ''0501234567''\<rparr>],
       birthday = Some \<lparr>birthday_value = \<lparr>year = 1990, month = 6, day = 17, hour = 0,
         minute = 0, second = 0, microsecond = 0\<rparr>\<rparr>\<rparr>)"
proof -
  let ?r = "\<lparr>name = \<lparr>name_value = ''kate''\<rparr>, phones = [\<lparr>phone_value = ''0501234567''\<rparr>],
      birthday = Some \<lparr>birthday_value = \<lparr>year = 1990, month = 6, day = 17, hour = 0,
        minute = 0, second = 0, microsecond = 0\<rparr>\<rparr>\<rparr>"
  have p: "Phone_init ''12345'' = Inl (ValueError ''Phone number must be exactly 10 digits.'')"
    by (simp add: Phone_init_def)
  have b: "Birthday_init ''31.02.2020'' = Inl (ValueError ''Invalid date format. Use DD.MM.YYYY'')"
    by code_simp
  show ?thesis
    using p b
      failed_add_leaves_record_unchanged [of "''12345''" "ValueError ''Phone number must be exactly 10 digits.''" ?r]
      failed_add_leaves_record_unchanged [of "''31.02.2020''" "ValueError ''Invalid date format. Use DD.MM.YYYY''" ?r]
    by simp
qed

section \<open>Birthday: validation at construction\<close>

lemma strptime_dmY_error: "strptime_dmY s = Inl e \<Longrightarrow> \<exists>msg. e = ValueError msg"
  by (auto simp: strptime_dmY_def split: list.splits prod.splits if_splits sum.splits
      dest: date_new_Inl)

text \<open>
  Whenever \<open>Birthday(s)\<close> raises, it raises the \<open>ValueError\<close> with the message of the
  class; and the text DD.MM.YYYY of every valid date is accepted.
\<close>

lemma Birthday_init_error:
  "Birthday_init s = Inl e \<Longrightarrow> e = ValueError ''Invalid date format. Use DD.MM.YYYY''"
  by (auto simp: Birthday_init_def split: sum.splits error.splits dest: strptime_dmY_error)

lemma Birthday_init_canonical:
  "valid_date d \<Longrightarrow>
   Birthday_init (DD_MM_YYYY d) =
     Inr \<lparr>birthday_value = \<lparr>year = year d, month = month d, day = day d,
            hour = 0, minute = 0, second = 0, microsecond = 0\<rparr>\<rparr>"
  by (simp add: Birthday_init_def strptime_dmY_canonical)

text \<open>
  Claim C4. The claim is that every text which is not exactly DD.MM.YYYY (two digits, two
  digits, four digits) of a valid date is refused with the message
  \<open>Invalid date format. Use DD.MM.YYYY\<close>, and the class says of itself that it validates
  that the birthday is in the format DD.MM.YYYY. The code leaves the test to
  \<open>strptime\<close>, whose \<open>%d\<close> and \<open>%m\<close> also take a single digit, so it departs from the
  claim: the text \<open>1.6.1990\<close>, which is not the DD.MM.YYYY text \<open>01.06.1990\<close> of its date, is
  accepted as a birthday.
\<close>

theorem Birthday_init_accepts_single_digits:
  "Birthday_init ''1.6.1990'' =
     Inr \<lparr>birthday_value = \<lparr>year = 1990, month = 6, day = 1,
            hour = 0, minute = 0, second = 0, microsecond = 0\<rparr>\<rparr> \<and>
   DD_MM_YYYY \<lparr>year = 1990, month = 6, day = 1\<rparr> = ''01.06.1990'' \<and>
   ''1.6.1990'' \<noteq> ''01.06.1990''"
proof -
  have a: "Birthday_init ''1.6.1990'' =
     Inr \<lparr>birthday_value = \<lparr>year = 1990, month = 6, day = 1,
            hour = 0, minute = 0, second = 0, microsecond = 0\<rparr>\<rparr>"
    by code_simp
  have b: "DD_MM_YYYY \<lparr>year = 1990, month = 6, day = 1\<rparr> = ''01.06.1990''"
    by (simp add: DD_MM_YYYY_def two_digits_def four_digits_def digit_char_table)
  have c: "''1.6.1990'' \<noteq> ''01.06.1990''" by simp
  from a b c show ?thesis by (intro conjI)
qed

section \<open>Birthday: add_birthday, then get_birthday\<close>

text \<open>
  Where the text comes back: for every valid date whose year has four digits (1000 to
  9999), and for every valid date at all where \<open>strftime\<close> fills \<open>%Y\<close> with zeros,
  \<open>add_birthday\<close> with the text DD.MM.YYYY of the date succeeds and \<open>get_birthday\<close> then
  returns that text.
\<close>

lemma birthday_round_trip:
  fixes d :: date
  assumes "valid_date d" "pads_year pf \<or> 1000 \<le> year d"
  shows "fst (add_birthday (DD_MM_YYYY d) r) = Inr () \<and>
         get_birthday pf (snd (add_birthday (DD_MM_YYYY d) r)) = Some (DD_MM_YYYY d)"
proof -
  let ?dt = "\<lparr>year = year d, month = month d, day = day d,
                 hour = 0, minute = 0, second = 0, microsecond = 0\<rparr>"
  have v: "valid_date ?dt" using assms(1) by (simp add: valid_date_def)
  have "strftime_dmY pf ?dt = DD_MM_YYYY ?dt"
    using v assms(2) by (intro strftime_dmY_canonical) simp_all
  also have "\<dots> = DD_MM_YYYY d" by (simp add: DD_MM_YYYY_def)
  finally show ?thesis
    by (simp add: add_birthday_def Birthday_init_def strptime_dmY_canonical [OF assms(1)]
        get_birthday_def)
qed

lemma birthday_round_trip_example:
  "valid_date \<lparr>year = 1990, month = 6, day = 12\<rparr> \<and>
   DD_MM_YYYY \<lparr>year = 1990, month = 6, day = 12\<rparr> = ''12.06.1990'' \<and>
   fst (add_birthday ''12.06.1990''
          \<lparr>name = \<lparr>name_value = ''kate''\<rparr>, phones = [], birthday = None\<rparr>) = Inr () \<and>
   get_birthday \<lparr>clock = \<lparr>year = 2024, month = 6, day = 10, hour = 9, minute = 0,
        second = 0, microsecond = 0\<rparr>, pads_year = False\<rparr>
     (snd (add_birthday ''12.06.1990''
          \<lparr>name = \<lparr>name_value = ''kate''\<rparr>, phones = [], birthday = None\<rparr>))
     = Some ''12.06.1990''"
proof -
  have v: "valid_date \<lparr>year = 1990, month = 6, day = 12\<rparr>"
    by (simp add: valid_date_def MAXYEAR_def days_in_month_def DAYS_IN_MONTH_def)
  have t: "DD_MM_YYYY \<lparr>year = 1990, month = 6, day = 12\<rparr> = ''12.06.1990''"
    by (simp add: DD_MM_YYYY_def two_digits_def four_digits_def digit_char_table)
  from birthday_round_trip [of "\<lparr>year = 1990, month = 6, day = 12\<rparr>"
      "\<lparr>clock = \<lparr>year = 2024, month = 6, day = 10, hour = 9, minute = 0,
        second = 0, microsecond = 0\<rparr>, pads_year = False\<rparr>"
      "\<lparr>name = \<lparr>name_value = ''kate''\<rparr>, phones = [], birthday = None\<rparr>"] v
  show ?thesis unfolding t using v by simp
qed

text \<open>
  Claim C5. The claim is that every text in the form DD.MM.YYYY of a valid date comes
  back from \<open>get_birthday\<close> after \<open>add_birthday\<close>, and \<open>get_birthday\<close> says of itself that
  it returns the birthday in DD.MM.YYYY format. The code prints the year with
  \<open>strftime("%Y")\<close>, which the C library of CPython 3.11 on Linux prints without leading
  zeros, so it departs from the claim: \<open>01.01.0999\<close> is accepted and comes back as
  \<open>01.01.999\<close>.
\<close>

theorem get_birthday_drops_zeros_of_year:
  "valid_date \<lparr>year = 999, month = 1, day = 1\<rparr> \<and>
   DD_MM_YYYY \<lparr>year = 999, month = 1, day = 1\<rparr> = ''01.01.0999'' \<and>
   fst (add_birthday ''01.01.0999''
          \<lparr>name = \<lparr>name_value = ''kate''\<rparr>, phones = [], birthday = None\<rparr>) = Inr () \<and>
   get_birthday \<lparr>clock = \<lparr>year = 2024, month = 6, day = 10, hour = 9, minute = 0,
        second = 0, microsecond = 0\<rparr>, pads_year = False\<rparr>
     (snd (add_birthday ''01.01.0999''
          \<lparr>name = \<lparr>name_value = ''kate''\<rparr>, phones = [], birthday = None\<rparr>))
     = Some ''01.01.999''"
  by code_simp

section \<open>AddressBook: keys mirror record names\<close>

lemma dict_setitem_keys:
  "fst ` set (dict_setitem kvs k v) = insert k (fst ` set kvs)"
  by (induction kvs k v rule: dict_setitem.induct) auto

lemma dict_setitem_distinct:
  "distinct (map fst kvs) \<Longrightarrow> distinct (map fst (dict_setitem kvs k v))"
proof (induction kvs k v rule: dict_setitem.induct)
  case (1 k v)
  then show ?case by simp
next
  case (2 k' v' kvs k v)
  then show ?case using dict_setitem_keys [of kvs k v] by auto
qed

lemma dict_setitem_all:
  "list_all P kvs \<Longrightarrow> P (k, v) \<Longrightarrow> list_all P (dict_setitem kvs k v)"
  by (induction kvs k v rule: dict_setitem.induct) auto

lemma add_record_keeps: "keys_mirror_names book \<Longrightarrow> keys_mirror_names (add_record rec book)"
  by (simp add: keys_mirror_names_def add_record_def dict_setitem_distinct dict_setitem_all)

lemma delete_keeps: "keys_mirror_names book \<Longrightarrow> keys_mirror_names (delete n book)"
  by (simp add: keys_mirror_names_def delete_def dict_delitem_def distinct_map_filter
      list_all_iff)

lemma perform_keeps: "keys_mirror_names book \<Longrightarrow> keys_mirror_names (perform x book)"
  by (cases x) (simp_all add: add_record_keeps delete_keeps)

lemma perform_all_keeps:
  "keys_mirror_names book \<Longrightarrow> keys_mirror_names (perform_all xs book)"
  by (induction xs arbitrary: book) (simp_all add: perform_keeps)

lemma find_record_in_data: "find_record k book = Some r \<Longrightarrow> (k, r) \<in> set (data book)"
  by (simp add: find_record_def dict_get_def map_of_SomeD)

text \<open>
  Claim C9. In every directory that a sequence of \<open>add_record\<close>, \<open>find\<close> and
  \<open>delete\<close> calls reaches from the empty one, no key stands twice, every entry holds
  under its key a record of that name, and so does every record that \<open>find\<close> returns.
\<close>

theorem reachable_keys_mirror_names:
  "distinct (map fst (data (perform_all xs AddressBook_init))) \<and>
   (\<forall>k r. find_record k (perform_all xs AddressBook_init) = Some r
      \<longrightarrow> name_value (name r) = k) \<and>
   (\<forall>kv \<in> set (data (perform_all xs AddressBook_init)). name_value (name (snd kv)) = fst kv)"
proof -
  let ?book = "perform_all xs AddressBook_init"
  have "keys_mirror_names AddressBook_init"
    by (simp add: keys_mirror_names_def AddressBook_init_def)
  then have inv: "keys_mirror_names ?book"
    by (rule perform_all_keeps)
  then have entries: "\<forall>kv \<in> set (data ?book). name_value (name (snd kv)) = fst kv"
    by (simp add: keys_mirror_names_def list_all_iff)
  from inv have "distinct (map fst (data ?book))"
    by (simp add: keys_mirror_names_def)
  moreover from entries
  have "\<forall>k r. find_record k ?book = Some r \<longrightarrow> name_value (name r) = k"
    using find_record_in_data by fastforce
  ultimately show ?thesis using entries by blast
qed

theorem reachable_keys_mirror_names_witness:
  "data (perform_all
     [Add_record \<lparr>name = \<lparr>name_value = ''kate''\<rparr>, phones = [\<lparr>phone_value = ''0501234567''\<rparr>], birthday = None\<rparr>,
      Add_record \<lparr>name = \<lparr>name_value = ''bob''\<rparr>, phones = [], birthday = None\<rparr>,
      Find ''kate'',
      Add_record \<lparr>name = \<lparr>name_value = ''kate''\<rparr>, phones = [], birthday = None\<rparr>,
      Delete ''bob'',
      Add_record \<lparr>name = \<lparr>name_value = ''ann''\<rparr>, phones = [], birthday = None\<rparr>]
     AddressBook_init) =
     [(''kate'', \<lparr>name = \<lparr>name_value = ''kate''\<rparr>, phones = [], birthday = None\<rparr>),
      (''ann'', \<lparr>name = \<lparr>name_value = ''ann''\<rparr>, phones = [], birthday = None\<rparr>)] \<and>
   distinct [''kate'', ''ann''] \<and>
   find_record ''ann'' (perform_all
     [Add_record \<lparr>name = \<lparr>name_value = ''kate''\<rparr>, phones = [\<lparr>phone_value = ''0501234567''\<rparr>], birthday = None\<rparr>,
      Add_record \<lparr>name = \<lparr>name_value = ''bob''\<rparr>, phones = [], birthday = None\<rparr>,
      Find ''kate'',
      Add_record \<lparr>name = \<lparr>name_value = ''kate''\<rparr>, phones = [], birthday = None\<rparr>,
      Delete ''bob'',
      Add_record \<lparr>name = \<lparr>name_value = ''ann''\<rparr>, phones = [], birthday = None\<rparr>]
     AddressBook_init) = Some \<lparr>name = \<lparr>name_value = ''ann''\<rparr>, phones = [], birthday = None\<rparr>"
  using reachable_keys_mirror_names [of
     "[Add_record \<lparr>name = \<lparr>name_value = ''kate''\<rparr>, phones = [\<lparr>phone_value = ''0501234567''\<rparr>], birthday = None\<rparr>,
      Add_record \<lparr>name = \<lparr>name_value = ''bob''\<rparr>, phones = [], birthday = None\<rparr>,
      Find ''kate'',
      Add_record \<lparr>name = \<lparr>name_value = ''kate''\<rparr>, phones = [], birthday = None\<rparr>,
      Delete ''bob'',
      Add_record \<lparr>name = \<lparr>name_value = ''ann''\<rparr>, phones = [], birthday = None\<rparr>]"]
  by (simp add: AddressBook_init_def add_record_def delete_def find_record_def dict_get_def
      dict_contains_def dict_delitem_def)

section \<open>AddressBook.get_upcoming_birthdays\<close>

subsection \<open>The clock\<close>

lemma strftime_dmY_platform:
  "pads_year p1 = pads_year p2 \<Longrightarrow> strftime_dmY p1 = (strftime_dmY p2 :: date \<Rightarrow> string)"
  by (rule ext) (simp add: strftime_dmY_def)

lemma upcoming_body_platform:
  assumes "pads_year p1 = pads_year p2"
  shows "upcoming_body p1 t w r = upcoming_body p2 t w r"
  unfolding upcoming_body_def strftime_dmY_platform [OF assms] by (rule refl)

lemma upcoming_loop_platform:
  "pads_year p1 = pads_year p2 \<Longrightarrow> upcoming_loop p1 t w rs acc = upcoming_loop p2 t w rs acc"
  by (induction rs arbitrary: acc)
     (simp_all add: upcoming_body_platform [of p1 p2] split: sum.splits option.splits)

text \<open>
  Claim C7, as the code has it. \<open>get_upcoming_birthdays\<close> takes no date: it reads the
  system clock itself (\<open>datetime.today()\<close>) and keeps the date of what it reads. Its
  result is determined by the directory and the calendar date the clock shows during the
  call: two calls on the same directory, on the same platform and on the same day, return
  the same result whatever the time of day.
\<close>

theorem upcoming_depends_on_clock_date:
  assumes "datetime_date (clock p1) = datetime_date (clock p2)"
    and "pads_year p1 = pads_year p2"
  shows "get_upcoming_birthdays p1 book = get_upcoming_birthdays p2 book"
  using assms
  by (simp add: get_upcoming_birthdays_def Let_def upcoming_loop_platform [of p1 p2]
      split: sum.splits)

theorem upcoming_depends_on_clock_date_witness:
  "datetime_date \<lparr>year = 2024, month = 6, day = 10, hour = 9, minute = 0, second = 0,
      microsecond = 0\<rparr> =
   datetime_date \<lparr>year = 2024, month = 6, day = 10, hour = 23, minute = 59, second = 59,
      microsecond = 999999\<rparr> \<and>
   get_upcoming_birthdays
     \<lparr>clock = \<lparr>year = 2024, month = 6, day = 10, hour = 9, minute = 0, second = 0,
        microsecond = 0\<rparr>, pads_year = True\<rparr>
     \<lparr>data = [(''kate'', \<lparr>name = \<lparr>name_value = ''kate''\<rparr>, phones = [],
                 birthday = Some \<lparr>birthday_value = \<lparr>year = 1990, month = 6, day = 12,
                   hour = 0, minute = 0, second = 0, microsecond = 0\<rparr>\<rparr>\<rparr>)]\<rparr> =
   get_upcoming_birthdays
     \<lparr>clock = \<lparr>year = 2024, month = 6, day = 10, hour = 23, minute = 59, second = 59,
        microsecond = 999999\<rparr>, pads_year = True\<rparr>
     \<lparr>data = [(''kate'', \<lparr>name = \<lparr>name_value = ''kate''\<rparr>, phones = [],
                 birthday = Some \<lparr>birthday_value = \<lparr>year = 1990, month = 6, day = 12,
                   hour = 0, minute = 0, second = 0, microsecond = 0\<rparr>\<rparr>\<rparr>)]\<rparr>"
  using upcoming_depends_on_clock_date [of
     "\<lparr>clock = \<lparr>year = 2024, month = 6, day = 10, hour = 9, minute = 0, second = 0,
        microsecond = 0\<rparr>, pads_year = True\<rparr>"
     "\<lparr>clock = \<lparr>year = 2024, month = 6, day = 10, hour = 23, minute = 59, second = 59,
        microsecond = 999999\<rparr>, pads_year = True\<rparr>"
     "\<lparr>data = [(''kate'', \<lparr>name = \<lparr>name_value = ''kate''\<rparr>, phones = [],
                 birthday = Some \<lparr>birthday_value = \<lparr>year = 1990, month = 6, day = 12,
                   hour = 0, minute = 0, second = 0, microsecond = 0\<rparr>\<rparr>\<rparr>)]\<rparr>"]
  by (simp add: datetime_date_def)

text \<open>
  The claim as the specification words it (the result is determined by the directory and
  what the caller passes) fails: the same call on the same directory returns kate on
  2024-06-10 and nobody a month later.
\<close>

theorem upcoming_reads_clock_counterexample:
  "get_upcoming_birthdays
     \<lparr>clock = \<lparr>year = 2024, month = 6, day = 10, hour = 9, minute = 0, second = 0,
        microsecond = 0\<rparr>, pads_year = True\<rparr>
     \<lparr>data = [(''kate'', \<lparr>name = \<lparr>name_value = ''kate''\<rparr>, phones = [],
                 birthday = Some \<lparr>birthday_value = \<lparr>year = 1990, month = 6, day = 12,
                   hour = 0, minute = 0, second = 0, microsecond = 0\<rparr>\<rparr>\<rparr>)]\<rparr>
     = Inr [\<lparr>congratulation_name = ''kate'', congratulation_date = ''12.06.2024''\<rparr>] \<and>
   get_upcoming_birthdays
     \<lparr>clock = \<lparr>year = 2024, month = 7, day = 10, hour = 9, minute = 0, second = 0,
        microsecond = 0\<rparr>, pads_year = True\<rparr>
     \<lparr>data = [(''kate'', \<lparr>name = \<lparr>name_value = ''kate''\<rparr>, phones = [],
                 birthday = Some \<lparr>birthday_value = \<lparr>year = 1990, month = 6, day = 12,
                   hour = 0, minute = 0, second = 0, microsecond = 0\<rparr>\<rparr>\<rparr>)]\<rparr>
     = Inr []"
  by code_simp

subsection \<open>The window\<close>

text \<open>
  Claim C1. The window of the code is \<open>today <= occurrence <= today + 7 days\<close>, eight
  days and not seven. On Monday 2024-06-10 the last day of a seven-day window is
  2024-06-16; a birthday on 17 June lies after it, and the query returns it.
\<close>

theorem upcoming_includes_eighth_day:
  "date_add_days \<lparr>year = 2024, month = 6, day = 10\<rparr> 6
     = Inr \<lparr>year = 2024, month = 6, day = 16\<rparr> \<and>
   \<not> date_le \<lparr>year = 2024, month = 6, day = 17\<rparr> \<lparr>year = 2024, month = 6, day = 16\<rparr> \<and>
   get_upcoming_birthdays
     \<lparr>clock = \<lparr>year = 2024, month = 6, day = 10, hour = 9, minute = 0, second = 0,
        microsecond = 0\<rparr>, pads_year = True\<rparr>
     \<lparr>data = [(''kate'', \<lparr>name = \<lparr>name_value = ''kate''\<rparr>, phones = [],
                 birthday = Some \<lparr>birthday_value = \<lparr>year = 1990, month = 6, day = 17,
                   hour = 0, minute = 0, second = 0, microsecond = 0\<rparr>\<rparr>\<rparr>)]\<rparr>
     = Inr [\<lparr>congratulation_name = ''kate'', congratulation_date = ''17.06.2024''\<rparr>]"
  by code_simp

subsection \<open>A birthday on 29 February\<close>

lemma upcoming_body_cases:
  "upcoming_body pf t w r =
     (case birthday r of
        None \<Rightarrow> Inr None
      | Some b \<Rightarrow>
          (case date_replace_year (datetime_date (birthday_value b)) (year t) of
             Inl e \<Rightarrow> Inl e
           | Inr occ \<Rightarrow>
               if date_le t occ \<and> date_le occ w
               then (if weekday occ = 5 \<or> weekday occ = 6
                     then (case date_add_days occ (7 - weekday occ) of
                             Inl e \<Rightarrow> Inl e
                           | Inr cd \<Rightarrow> Inr (Some \<lparr>congratulation_name = name_value (name r),
                                congratulation_date = strftime_dmY pf cd\<rparr>))
                     else Inr (Some \<lparr>congratulation_name = name_value (name r),
                                congratulation_date = strftime_dmY pf occ\<rparr>))
               else Inr None))"
  by (simp add: upcoming_body_def split: option.splits sum.splits)

lemma upcoming_body_error:
  assumes "upcoming_body pf t w r = Inl e"
  shows "\<exists>msg. e = ValueError msg"
proof (cases "birthday r")
  case None
  with assms show ?thesis by (simp add: upcoming_body_cases)
next
  case (Some b)
  show ?thesis
  proof (cases "date_replace_year (datetime_date (birthday_value b)) (year t)")
    case (Inl e')
    with assms Some have "e = e'" by (simp add: upcoming_body_cases)
    with Inl show ?thesis by (auto simp: date_replace_year_def dest: date_new_Inl)
  next
    case (Inr occ)
    then have v: "valid_date occ"
      unfolding date_replace_year_def date_new_Inr by (rule conjunct2)
    show ?thesis
    proof (cases "weekday occ = 5 \<or> weekday occ = 6")
      case True
      from weekend_shift_in_range [OF v True] obtain x
        where "date_add_days occ (7 - weekday occ) = Inr x" ..
      with assms Some Inr True show ?thesis
        by (simp add: upcoming_body_cases split: if_splits)
    next
      case False
      with assms Some Inr show ?thesis
        by (simp add: upcoming_body_cases split: if_splits)
    qed
  qed
qed

lemma upcoming_body_feb29:
  assumes "birthday r = Some b" "month (birthday_value b) = 2" "day (birthday_value b) = 29"
    and "\<not> is_leap (year t)"
  shows "\<exists>msg. upcoming_body pf t w r = Inl (ValueError msg)"
proof -
  have "\<exists>msg. date_replace_year (datetime_date (birthday_value b)) (year t)
          = Inl (ValueError msg)"
    using assms
    by (simp add: date_replace_year_def datetime_date_def date_new_def days_in_month_def
        DAYS_IN_MONTH_nth)
  then show ?thesis using assms(1) by (auto simp: upcoming_body_cases)
qed

lemma upcoming_loop_error:
  assumes "r \<in> set rs" "upcoming_body pf t w r = Inl e0"
  shows "\<exists>msg. upcoming_loop pf t w rs acc = Inl (ValueError msg)"
  using assms
proof (induction rs arbitrary: acc)
  case Nil
  then show ?case by simp
next
  case (Cons x xs)
  show ?case
  proof (cases "upcoming_body pf t w x")
    case (Inl e)
    with upcoming_body_error [OF Inl] show ?thesis by auto
  next
    case (Inr c)
    with Cons.prems have "r \<in> set xs" by auto
    from Cons.IH [OF this Cons.prems(2)] Inr show ?thesis
      by (cases c) simp_all
  qed
qed

text \<open>
  Claim C10. When some record of the directory has its birthday on 29 February and the
  year of the clock is not a leap year, the query returns no list: it raises. The
  exception is a \<open>ValueError\<close>, raised by \<open>replace(year=...)\<close> in the loop, whenever the
  loop is reached, that is whenever \<open>today + 7 days\<close> is a date (it is not in the last
  week of the year 9999, where computing it raises \<open>OverflowError\<close> before the loop).
\<close>

theorem feb29_in_common_year_fails_query:
  assumes "rec \<in> set (dict_values (data book))" "birthday rec = Some b"
    and "month (birthday_value b) = 2" "day (birthday_value b) = 29"
    and "\<not> is_leap (year (clock pf))"
  shows "(\<exists>e. get_upcoming_birthdays pf book = Inl e) \<and>
         ((\<exists>week. date_add_days (datetime_date (clock pf)) 7 = Inr week) \<longrightarrow>
          (\<exists>msg. get_upcoming_birthdays pf book = Inl (ValueError msg)))"
proof -
  let ?today = "datetime_date (clock pf)"
  have y: "year ?today = year (clock pf)" by (simp add: datetime_date_def)
  show ?thesis
  proof (cases "date_add_days ?today 7")
    case (Inl e)
    then show ?thesis by (simp add: get_upcoming_birthdays_def)
  next
    case (Inr week)
    from upcoming_body_feb29 [OF assms(2-4), of ?today pf week] assms(5) y
    obtain msg where "upcoming_body pf ?today week rec = Inl (ValueError msg)" by auto
    from upcoming_loop_error [OF assms(1) this, of "[]"] Inr
    show ?thesis by (auto simp: get_upcoming_birthdays_def)
  qed
qed

theorem feb29_in_common_year_fails_query_witness:
  "\<not> is_leap 2023 \<and>
   date_add_days \<lparr>year = 2023, month = 2, day = 25\<rparr> 7 = Inr \<lparr>year = 2023, month = 3, day = 4\<rparr> \<and>
   get_upcoming_birthdays
     \<lparr>clock = \<lparr>year = 2023, month = 2, day = 25, hour = 8, minute = 0, second = 0,
        microsecond = 0\<rparr>, pads_year = True\<rparr>
     \<lparr>data = [(''bob'', \<lparr>name = \<lparr>name_value = ''bob''\<rparr>, phones = [],
                 birthday = Some \<lparr>birthday_value = \<lparr>year = 1985, month = 2, day = 27,
                   hour = 0, minute = 0, second = 0, microsecond = 0\<rparr>\<rparr>\<rparr>),
              (''ann'', \<lparr>name = \<lparr>name_value = ''ann''\<rparr>, phones = [],
                 birthday = Some \<lparr>birthday_value = \<lparr>year = 2000, month = 2, day = 29,
                   hour = 0, minute = 0, second = 0, microsecond = 0\<rparr>\<rparr>\<rparr>)]\<rparr>
     = Inl (ValueError ''day is out of range for month'')"
proof -
  let ?pf = "\<lparr>clock = \<lparr>year = 2023, month = 2, day = 25, hour = 8, minute = 0, second = 0,
        microsecond = 0\<rparr>, pads_year = True\<rparr>"
  let ?ann = "\<lparr>name = \<lparr>name_value = ''ann''\<rparr>, phones = [],
                 birthday = Some \<lparr>birthday_value = \<lparr>year = 2000, month = 2, day = 29,
                   hour = 0, minute = 0, second = 0, microsecond = 0\<rparr>\<rparr>\<rparr>"
  let ?book = "\<lparr>data = [(''bob'', \<lparr>name = \<lparr>name_value = ''bob''\<rparr>, phones = [],
                 birthday = Some \<lparr>birthday_value = \<lparr>year = 1985, month = 2, day = 27,
                   hour = 0, minute = 0, second = 0, microsecond = 0\<rparr>\<rparr>\<rparr>),
              (''ann'', ?ann)]\<rparr>"
  have l: "\<not> is_leap 2023" by (simp add: is_leap_def)
  have w: "date_add_days \<lparr>year = 2023, month = 2, day = 25\<rparr> 7
             = Inr \<lparr>year = 2023, month = 3, day = 4\<rparr>"
    by code_simp
  have r: "get_upcoming_birthdays ?pf ?book = Inl (ValueError ''day is out of range for month'')"
    by code_simp
  from feb29_in_common_year_fails_query [of ?ann ?book
      "\<lparr>birthday_value = \<lparr>year = 2000, month = 2, day = 29,
         hour = 0, minute = 0, second = 0, microsecond = 0\<rparr>\<rparr>" ?pf] l
  have "\<exists>e. get_upcoming_birthdays ?pf ?book = Inl e"
    by (simp add: dict_values_def)
  with l w r show ?thesis by simp
qed

subsection \<open>The weekend\<close>

lemma upcoming_loop_result:
  "upcoming_loop pf t w rs acc = Inr res \<Longrightarrow>
   res = acc @ concat (map (\<lambda>r. case upcoming_body pf t w r of
                                   Inr (Some c) \<Rightarrow> [c] | _ \<Rightarrow> []) rs)"
proof (induction rs arbitrary: acc)
  case Nil
  then show ?case by simp
next
  case (Cons x xs)
  show ?case
  proof (cases "upcoming_body pf t w x")
    case (Inl e)
    with Cons.prems show ?thesis by simp
  next
    case (Inr c)
    show ?thesis
    proof (cases c)
      case None
      with Cons.prems Inr have "upcoming_loop pf t w xs acc = Inr res" by simp
      from Cons.IH [OF this] show ?thesis using Inr None by simp
    next
      case (Some a)
      with Cons.prems Inr have "upcoming_loop pf t w xs (acc @ [a]) = Inr res" by simp
      from Cons.IH [OF this] show ?thesis using Inr Some by simp
    qed
  qed
qed

lemma upcoming_loop_members:
  assumes "upcoming_loop pf t w rs [] = Inr res"
  shows "set res = {c. \<exists>r \<in> set rs. upcoming_body pf t w r = Inr (Some c)}"
  unfolding upcoming_loop_result [OF assms]
  by (auto split: sum.splits option.splits)

lemma weekend_shift_lands_on_monday:
  assumes "valid_date occ" "weekday occ = 5 \<or> weekday occ = 6"
    and "date_add_days occ (7 - weekday occ) = Inr cd"
  shows "weekday cd = 0 \<and> toordinal cd = toordinal occ + (7 - weekday occ) \<and> valid_date cd"
  using date_add_days_Inr [OF assms(1,3)] assms(2) by auto

lemma weekday_range: "0 \<le> weekday d \<and> weekday d < 7"
  by (simp add: weekday_def)

lemma upcoming_body_Some:
  "(upcoming_body pf t w r = Inr (Some c)) =
   (\<exists>b occ cd. birthday r = Some b \<and>
      date_replace_year (datetime_date (birthday_value b)) (year t) = Inr occ \<and>
      date_le t occ \<and> date_le occ w \<and>
      (if weekday occ = 5 \<or> weekday occ = 6
       then date_add_days occ (7 - weekday occ) = Inr cd else cd = occ) \<and>
      c = \<lparr>congratulation_name = name_value (name r),
           congratulation_date = strftime_dmY pf cd\<rparr>)"
  by (auto simp: upcoming_body_cases split: option.splits sum.splits if_splits)

text \<open>
  Claim C2. When the query returns a list, every element of it comes from a record with a
  birthday whose occurrence in the year of the clock exists; it carries the name of the
  record and the \<open>strftime("%d.%m.%Y")\<close> text of the congratulation date. That date is
  the occurrence itself when the occurrence falls on Monday to Friday, the date two days
  later when it falls on a Saturday and one day later when it falls on a Sunday (\<open>7 -
  weekday\<close> days later), and then it is a Monday. The text is the DD.MM.YYYY form of
  the date whenever its year has four digits (or the platform fills \<open>%Y\<close> with zeros).
  And every record whose occurrence passes the test of the window has its element in
  the list.
\<close>

theorem weekend_birthdays_move_to_monday:
  assumes "get_upcoming_birthdays pf book = Inr res"
  shows "(\<forall>c \<in> set res. \<exists>rec \<in> set (dict_values (data book)). \<exists>b occ cd.
            birthday rec = Some b \<and>
            date_replace_year (datetime_date (birthday_value b)) (year (clock pf)) = Inr occ \<and>
            congratulation_name c = name_value (name rec) \<and>
            congratulation_date c = strftime_dmY pf cd \<and>
            (weekday occ = 5 \<longrightarrow>
               date_add_days occ 2 = Inr cd \<and> toordinal cd = toordinal occ + 2 \<and> weekday cd = 0) \<and>
            (weekday occ = 6 \<longrightarrow>
               date_add_days occ 1 = Inr cd \<and> toordinal cd = toordinal occ + 1 \<and> weekday cd = 0) \<and>
            (weekday occ < 5 \<longrightarrow> cd = occ) \<and>
            (pads_year pf \<or> 1000 \<le> year cd \<longrightarrow> congratulation_date c = DD_MM_YYYY cd)) \<and>
         (\<forall>rec \<in> set (dict_values (data book)). \<forall>b occ week.
            birthday rec = Some b \<and>
            date_replace_year (datetime_date (birthday_value b)) (year (clock pf)) = Inr occ \<and>
            date_add_days (datetime_date (clock pf)) 7 = Inr week \<and>
            date_le (datetime_date (clock pf)) occ \<and> date_le occ week \<longrightarrow>
            (\<exists>cd. (if weekday occ = 5 \<or> weekday occ = 6
                   then date_add_days occ (7 - weekday occ) = Inr cd else cd = occ) \<and>
                  \<lparr>congratulation_name = name_value (name rec),
                   congratulation_date = strftime_dmY pf cd\<rparr> \<in> set res))"
proof -
  let ?today = "datetime_date (clock pf)"
  have y: "year ?today = year (clock pf)" by (simp add: datetime_date_def)
  from assms obtain week where week: "date_add_days ?today 7 = Inr week"
    and loop: "upcoming_loop pf ?today week (dict_values (data book)) [] = Inr res"
    by (auto simp: get_upcoming_birthdays_def Let_def split: sum.splits)
  note members = upcoming_loop_members [OF loop]
  have emitted: "\<exists>rec \<in> set (dict_values (data book)). \<exists>b occ cd.
            birthday rec = Some b \<and>
            date_replace_year (datetime_date (birthday_value b)) (year (clock pf)) = Inr occ \<and>
            congratulation_name c = name_value (name rec) \<and>
            congratulation_date c = strftime_dmY pf cd \<and>
            (weekday occ = 5 \<longrightarrow>
               date_add_days occ 2 = Inr cd \<and> toordinal cd = toordinal occ + 2 \<and> weekday cd = 0) \<and>
            (weekday occ = 6 \<longrightarrow>
               date_add_days occ 1 = Inr cd \<and> toordinal cd = toordinal occ + 1 \<and> weekday cd = 0) \<and>
            (weekday occ < 5 \<longrightarrow> cd = occ) \<and>
            (pads_year pf \<or> 1000 \<le> year cd \<longrightarrow> congratulation_date c = DD_MM_YYYY cd)"
    if "c \<in> set res" for c
  proof -
    from that members obtain rec where rec: "rec \<in> set (dict_values (data book))"
      and body: "upcoming_body pf ?today week rec = Inr (Some c)"
      by auto
    from body obtain b occ cd where b: "birthday rec = Some b"
      and occ: "date_replace_year (datetime_date (birthday_value b)) (year ?today) = Inr occ"
      and cd: "if weekday occ = 5 \<or> weekday occ = 6
               then date_add_days occ (7 - weekday occ) = Inr cd else cd = occ"
      and c: "c = \<lparr>congratulation_name = name_value (name rec),
                   congratulation_date = strftime_dmY pf cd\<rparr>"
      unfolding upcoming_body_Some by blast
    from occ have v: "valid_date occ"
      unfolding date_replace_year_def date_new_Inr by (rule conjunct2)
    have sat: "date_add_days occ 2 = Inr cd \<and> toordinal cd = toordinal occ + 2 \<and> weekday cd = 0"
      if "weekday occ = 5"
      using weekend_shift_lands_on_monday [OF v, of cd] cd that by simp
    have sun: "date_add_days occ 1 = Inr cd \<and> toordinal cd = toordinal occ + 1 \<and> weekday cd = 0"
      if "weekday occ = 6"
      using weekend_shift_lands_on_monday [OF v, of cd] cd that by simp
    have week_day: "cd = occ" if "weekday occ < 5"
      using cd that by simp
    have vcd: "valid_date cd"
    proof (cases "weekday occ = 5 \<or> weekday occ = 6")
      case True
      with cd weekend_shift_lands_on_monday [OF v True, of cd] show ?thesis by simp
    next
      case False
      with cd v show ?thesis by simp
    qed
    have rendered: "congratulation_date c = DD_MM_YYYY cd" if "pads_year pf \<or> 1000 \<le> year cd"
      using strftime_dmY_canonical [OF vcd that] c by simp
    from rec b occ c sat sun week_day rendered show ?thesis
      unfolding y by (intro bexI [of _ rec] exI [of _ b] exI [of _ occ] exI [of _ cd]) simp_all
  qed
  have qualifying: "\<exists>cd. (if weekday occ = 5 \<or> weekday occ = 6
                   then date_add_days occ (7 - weekday occ) = Inr cd else cd = occ) \<and>
                  \<lparr>congratulation_name = name_value (name rec),
                   congratulation_date = strftime_dmY pf cd\<rparr> \<in> set res"
    if rec: "rec \<in> set (dict_values (data book))" and b: "birthday rec = Some b"
      and occ: "date_replace_year (datetime_date (birthday_value b)) (year (clock pf)) = Inr occ"
      and w: "date_add_days ?today 7 = Inr week'"
      and le: "date_le ?today occ" "date_le occ week'"
    for rec b occ week'
  proof -
    from w week have ww: "week' = week" by simp
    from occ have v: "valid_date occ"
      unfolding date_replace_year_def date_new_Inr by (rule conjunct2)
    obtain cd where cd: "if weekday occ = 5 \<or> weekday occ = 6
                   then date_add_days occ (7 - weekday occ) = Inr cd else cd = occ"
      using weekend_shift_in_range [OF v] by (cases "weekday occ = 5 \<or> weekday occ = 6") auto
    have "upcoming_body pf ?today week rec
            = Inr (Some \<lparr>congratulation_name = name_value (name rec),
                          congratulation_date = strftime_dmY pf cd\<rparr>)"
      unfolding upcoming_body_Some using b occ le cd by (auto simp: y ww)
    with rec members cd show ?thesis by blast
  qed
  from emitted qualifying show ?thesis by blast
qed

theorem weekend_birthdays_move_to_monday_witness:
  "get_upcoming_birthdays
     \<lparr>clock = \<lparr>year = 2024, month = 6, day = 10, hour = 9, minute = 0, second = 0,
        microsecond = 0\<rparr>, pads_year = False\<rparr>
     \<lparr>data = [(''kate'', \<lparr>name = \<lparr>name_value = ''kate''\<rparr>, phones = [],
                 birthday = Some \<lparr>birthday_value = \<lparr>year = 1990, month = 6, day = 12,
                   hour = 0, minute = 0, second = 0, microsecond = 0\<rparr>\<rparr>\<rparr>),
              (''bob'', \<lparr>name = \<lparr>name_value = ''bob''\<rparr>, phones = [],
                 birthday = Some \<lparr>birthday_value = \<lparr>year = 1985, month = 6, day = 15,
                   hour = 0, minute = 0, second = 0, microsecond = 0\<rparr>\<rparr>\<rparr>),
              (''ann'', \<lparr>name = \<lparr>name_value = ''ann''\<rparr>, phones = [],
                 birthday = Some \<lparr>birthday_value = \<lparr>year = 1990, month = 1, day = 1,
                   hour = 0, minute = 0, second = 0, microsecond = 0\<rparr>\<rparr>\<rparr>)]\<rparr>
     = Inr [\<lparr>congratulation_name = ''kate'', congratulation_date = ''12.06.2024''\<rparr>,
            \<lparr>congratulation_name = ''bob'', congratulation_date = ''17.06.2024''\<rparr>] \<and>
   weekday \<lparr>year = 2024, month = 6, day = 12\<rparr> = 2 \<and>
   weekday \<lparr>year = 2024, month = 6, day = 15\<rparr> = 5 \<and>
   date_add_days \<lparr>year = 2024, month = 6, day = 15\<rparr> 2
     = Inr \<lparr>year = 2024, month = 6, day = 17\<rparr> \<and>
   weekday \<lparr>year = 2024, month = 6, day = 17\<rparr> = 0"
proof -
  let ?pf = "\<lparr>clock = \<lparr>year = 2024, month = 6, day = 10, hour = 9, minute = 0, second = 0,
        microsecond = 0\<rparr>, pads_year = False\<rparr>"
  let ?book = "\<lparr>data = [(''kate'', \<lparr>name = \<lparr>name_value = ''kate''\<rparr>, phones = [],
                 birthday = Some \<lparr>birthday_value = \<lparr>year = 1990, month = 6, day = 12,
                   hour = 0, minute = 0, second = 0, microsecond = 0\<rparr>\<rparr>\<rparr>),
              (''bob'', \<lparr>name = \<lparr>name_value = ''bob''\<rparr>, phones = [],
                 birthday = Some \<lparr>birthday_value = \<lparr>year = 1985, month = 6, day = 15,
                   hour = 0, minute = 0, second = 0, microsecond = 0\<rparr>\<rparr>\<rparr>),
              (''ann'', \<lparr>name = \<lparr>name_value = ''ann''\<rparr>, phones = [],
                 birthday = Some \<lparr>birthday_value = \<lparr>year = 1990, month = 1, day = 1,
                   hour = 0, minute = 0, second = 0, microsecond = 0\<rparr>\<rparr>\<rparr>)]\<rparr>"
  have r: "get_upcoming_birthdays ?pf ?book
     = Inr [\<lparr>congratulation_name = ''kate'', congratulation_date = ''12.06.2024''\<rparr>,
            \<lparr>congratulation_name = ''bob'', congratulation_date = ''17.06.2024''\<rparr>]"
    by code_simp
  have w1: "weekday \<lparr>year = 2024, month = 6, day = 12\<rparr> = 2" by code_simp
  have w2: "weekday \<lparr>year = 2024, month = 6, day = 15\<rparr> = 5" by code_simp
  have s: "date_add_days \<lparr>year = 2024, month = 6, day = 15\<rparr> 2
     = Inr \<lparr>year = 2024, month = 6, day = 17\<rparr>" by code_simp
  have w3: "weekday \<lparr>year = 2024, month = 6, day = 17\<rparr> = 0" by code_simp
  show ?thesis
    using weekend_birthdays_move_to_monday [OF r] r w1 w2 s w3
    by (intro conjI) assumption+
qed

end
